theory Spec2Isabelle
  imports Complex_Main "HOL-Library.Multiset" "HOL-Library.Char_ord" "HOL-Library.List_Lexorder"
    "HOL-Library.Option_ord"
begin

section \<open>Values shared by the three modules\<close>

text \<open>
  Exceptions of the Python source that the model keeps as values.
\<close>

datatype py_error = ValueError | IndexError | JSONDecodeError

text \<open>
  What \<open>json.dumps\<close> accepts and \<open>json.loads\<close> returns. The \<open>json\<close> module belongs
  to the Python standard library, not to the repository: every function below that calls
  it takes the encoder \<open>dumps\<close> and the decoder \<open>loads\<close> as arguments; \<open>loads s = None\<close>
  stands for \<open>json.loads(s)\<close> raising \<open>JSONDecodeError\<close>.
\<close>

datatype json =
    JNull
  | JBool bool
  | JInt int
  | JString string
  | JArray "json list"
  | JObject "(string \<times> json) list"

section \<open>storage.py: the SQLite tables as lists of rows\<close>

text \<open>
  Table \<open>tweets\<close>, rows in insertion order. \<open>upsert_tweet\<close> is the only writer and binds
  Python \<open>str\<close> values, so the columns are strings; \<open>raw\<close> stays nullable because
  \<open>export_tweets\<close> guards against a NULL or empty \<open>raw\<close>.
\<close>

record tweet_row =
  tw_id :: string
  tw_target :: string
  tw_content :: string
  tw_created_at :: string
  tw_raw :: "string option"
  tw_fetched_at :: string
  tw_instance :: string

text \<open>Table \<open>targets\<close>; the three last columns are nullable in the code's use of them.\<close>

record target_row =
  tg_id :: int
  tg_type :: string
  tg_value :: string
  tg_poll_interval_seconds :: "int option"
  tg_last_fetched_id :: "string option"
  tg_last_fetched_at :: "string option"

record storage =
  tweets :: "tweet_row list"
  targets :: "target_row list"

text \<open>
  \<open>Storage.upsert_tweet\<close>: \<open>INSERT OR IGNORE\<close> on the primary key \<open>id\<close>; the result is
  \<open>cursor.rowcount > 0\<close>.
\<close>

definition upsert_tweet ::
  "(json \<Rightarrow> string) \<Rightarrow> storage \<Rightarrow> string \<Rightarrow> string \<Rightarrow> string \<Rightarrow> string \<Rightarrow> json \<Rightarrow> string \<Rightarrow> string
    \<Rightarrow> storage \<times> bool" where
  "upsert_tweet dumps db tweet_id target content created_at raw fetched_at instance =
     (let raw_json = dumps raw in
      if tweet_id \<in> set (map tw_id (tweets db)) then (db, False)
      else
        (db\<lparr>tweets := tweets db @
            [\<lparr>tw_id = tweet_id, tw_target = target, tw_content = content,
              tw_created_at = created_at, tw_raw = Some raw_json,
              tw_fetched_at = fetched_at, tw_instance = instance\<rparr>]\<rparr>,
         True))"

text \<open>The arguments of one call of \<open>upsert_tweet\<close>, and a sequence of calls.\<close>

record upsert_call =
  c_id :: string
  c_target :: string
  c_content :: string
  c_created_at :: string
  c_raw :: json
  c_fetched_at :: string
  c_instance :: string

definition upsert_call_of :: "(json \<Rightarrow> string) \<Rightarrow> storage \<Rightarrow> upsert_call \<Rightarrow> storage \<times> bool" where
  "upsert_call_of dumps db c =
     upsert_tweet dumps db (c_id c) (c_target c) (c_content c) (c_created_at c) (c_raw c)
       (c_fetched_at c) (c_instance c)"

fun upsert_calls :: "(json \<Rightarrow> string) \<Rightarrow> storage \<Rightarrow> upsert_call list \<Rightarrow> storage" where
  "upsert_calls dumps db [] = db"
| "upsert_calls dumps db (c # cs) = upsert_calls dumps (fst (upsert_call_of dumps db c)) cs"

fun upsert_returns :: "(json \<Rightarrow> string) \<Rightarrow> storage \<Rightarrow> upsert_call list \<Rightarrow> bool list" where
  "upsert_returns dumps db [] = []"
| "upsert_returns dumps db (c # cs) =
     snd (upsert_call_of dumps db c) # upsert_returns dumps (fst (upsert_call_of dumps db c)) cs"

text \<open>
  \<open>Storage.update_target_fetch_state\<close>: \<open>UPDATE targets SET ... WHERE id = ?\<close>.
\<close>

definition update_target_fetch_state ::
  "storage \<Rightarrow> int \<Rightarrow> string option \<Rightarrow> string option \<Rightarrow> storage" where
  "update_target_fetch_state db target_id last_fetched_id last_fetched_at =
     db\<lparr>targets :=
        map (\<lambda>t. if tg_id t = target_id
                 then t\<lparr>tg_last_fetched_id := last_fetched_id,
                        tg_last_fetched_at := last_fetched_at\<rparr>
                 else t)
          (targets db)\<rparr>"

text \<open>
  \<open>ORDER BY datetime(created_at) DESC\<close>. SQLite's \<open>datetime()\<close> is not part of the
  repository: it is the argument \<open>dt\<close>, from the stored text to any linearly ordered
  type (a NULL result is a least element of that type). SQL leaves the order of rows with
  equal keys open; the model keeps them in insertion order, which is the order SQLite
  returns them in for the queries of this file (it reads the table by rowid and its sorter
  keeps the order of equal keys).
\<close>

fun insert_desc :: "('a \<Rightarrow> 'k::linorder) \<Rightarrow> 'a \<Rightarrow> 'a list \<Rightarrow> 'a list" where
  "insert_desc key x [] = [x]"
| "insert_desc key x (y # ys) =
     (if key y \<le> key x then x # y # ys else y # insert_desc key x ys)"

definition order_by_desc :: "('a \<Rightarrow> 'k::linorder) \<Rightarrow> 'a list \<Rightarrow> 'a list" where
  "order_by_desc key xs = foldr (insert_desc key) xs []"

text \<open>\<open>LIMIT n\<close>: SQLite reads a negative limit as no limit.\<close>

definition sql_limit :: "int \<Rightarrow> 'a list \<Rightarrow> 'a list" where
  "sql_limit n xs = (if n < 0 then xs else take (nat n) xs)"

text \<open>
  \<open>Storage.export_tweets\<close>, a generator: the lines it yields, and the exception that ends
  it when \<open>json.loads\<close> raises on a row (the lines of the rows before that one have been
  yielded by then). \<open>row["raw"] or "{}"\<close> replaces a NULL or empty \<open>raw\<close> only.
\<close>

definition raw_or_empty_object :: "string option \<Rightarrow> string" where
  "raw_or_empty_object r = (case r of None \<Rightarrow> ''{}'' | Some s \<Rightarrow> if s = [] then ''{}'' else s)"

definition export_data :: "tweet_row \<Rightarrow> json \<Rightarrow> json" where
  "export_data row raw =
     JObject [(''id'', JString (tw_id row)), (''target'', JString (tw_target row)),
       (''content'', JString (tw_content row)), (''created_at'', JString (tw_created_at row)),
       (''raw'', raw), (''fetched_at'', JString (tw_fetched_at row)),
       (''instance'', JString (tw_instance row))]"

fun export_rows ::
  "(string \<Rightarrow> json option) \<Rightarrow> (json \<Rightarrow> string) \<Rightarrow> tweet_row list \<Rightarrow> string list \<times> py_error option" where
  "export_rows loads dumps [] = ([], None)"
| "export_rows loads dumps (row # rows) =
     (case loads (raw_or_empty_object (tw_raw row)) of
        None \<Rightarrow> ([], Some JSONDecodeError)
      | Some raw \<Rightarrow>
          (dumps (export_data row raw) # fst (export_rows loads dumps rows),
           snd (export_rows loads dumps rows)))"

definition export_tweets ::
  "(string \<Rightarrow> 'k::linorder) \<Rightarrow> (string \<Rightarrow> json option) \<Rightarrow> (json \<Rightarrow> string) \<Rightarrow> storage
    \<Rightarrow> string list \<times> py_error option" where
  "export_tweets dt loads dumps db =
     export_rows loads dumps (order_by_desc (\<lambda>r. dt (tw_created_at r)) (tweets db))"

text \<open>
  \<open>Storage.prune_old_entries\<close>: the distinct targets are read first; then one \<open>DELETE\<close>
  per target removes its rows whose id is not among the first \<open>max_per_target\<close> ids of
  that target in descending \<open>datetime(created_at)\<close> order.
\<close>

definition newest_ids :: "(string \<Rightarrow> 'k::linorder) \<Rightarrow> int \<Rightarrow> string \<Rightarrow> tweet_row list \<Rightarrow> string list" where
  "newest_ids dt max_per_target target rows =
     map tw_id
       (sql_limit max_per_target
         (order_by_desc (\<lambda>r. dt (tw_created_at r)) (filter (\<lambda>r. tw_target r = target) rows)))"

definition delete_older :: "(string \<Rightarrow> 'k::linorder) \<Rightarrow> int \<Rightarrow> tweet_row list \<Rightarrow> string \<Rightarrow> tweet_row list" where
  "delete_older dt max_per_target rows target =
     filter (\<lambda>r. \<not> (tw_id r \<notin> set (newest_ids dt max_per_target target rows) \<and> tw_target r = target))
       rows"

definition prune_old_entries :: "(string \<Rightarrow> 'k::linorder) \<Rightarrow> storage \<Rightarrow> int \<Rightarrow> storage" where
  "prune_old_entries dt db max_per_target =
     db\<lparr>tweets :=
        foldl (delete_older dt max_per_target) (tweets db) (remdups (map tw_target (tweets db)))\<rparr>"

section \<open>nitter\_client.py: instance rotation, token buckets, backoff\<close>

text \<open>
  \<open>InstanceState\<close>. Python's floats are modelled as exact reals (rounding is not
  modelled); \<open>consecutive_errors\<close> starts at 0 and is only incremented or reset, so it is
  a natural number.
\<close>

record instance_state =
  base_url :: string
  tokens :: real
  last_refill :: real
  backoff_until :: real
  consecutive_errors :: nat
  last_rtt :: "real option"
  last_error :: "string option"

text \<open>
  \<open>NitterClient\<close>. The HTTP session and the logger are left out. An \<open>InstanceState\<close>
  object is named by its index in \<open>_states\<close>.
\<close>

record nitter_client =
  backoff_base_seconds :: int
  states :: "instance_state list"
  max_requests_per_minute :: int
  rotation_index :: nat

text \<open>\<open>instance.rstrip("/")\<close>.\<close>

definition rstrip_slash :: "string \<Rightarrow> string" where
  "rstrip_slash s = rev (dropWhile (\<lambda>c. c = CHR ''/'') (rev s))"

text \<open>
  \<open>NitterClient.__init__\<close>. Every reading of \<open>time.monotonic()\<close> is an argument of the
  function that takes it: here \<open>created k\<close> is the reading that \<open>default_factory\<close> takes for
  the \<open>k\<close>-th instance.
\<close>

definition new_state :: "string \<Rightarrow> int \<Rightarrow> real \<Rightarrow> instance_state" where
  "new_state instance max_rpm now =
     \<lparr>base_url = rstrip_slash instance, tokens = real_of_int max_rpm, last_refill = now,
      backoff_until = 0, consecutive_errors = 0, last_rtt = None, last_error = None\<rparr>"

definition client_init :: "(nat \<Rightarrow> real) \<Rightarrow> string list \<Rightarrow> int \<Rightarrow> int \<Rightarrow> py_error + nitter_client" where
  "client_init created instances max_rpm backoff_base =
     (if instances = [] then Inl ValueError
      else Inr \<lparr>backoff_base_seconds = max 1 backoff_base,
                states = map (\<lambda>k. new_state (instances ! k) max_rpm (created k)) [0..<length instances],
                max_requests_per_minute = max_rpm,
                rotation_index = 0\<rparr>)"

text \<open>\<open>NitterClient._refill_tokens\<close>.\<close>

definition refill_tokens :: "int \<Rightarrow> real \<Rightarrow> instance_state \<Rightarrow> instance_state" where
  "refill_tokens max_rpm now s =
     (let elapsed = now - last_refill s;
          tokens_to_add = (real_of_int max_rpm / 60) * elapsed
      in if tokens_to_add > 0
         then s\<lparr>tokens := min (real_of_int max_rpm) (tokens s + tokens_to_add), last_refill := now\<rparr>
         else s)"

text \<open>
  \<open>NitterClient._acquire_instance\<close>: at most \<open>len(self._states)\<close> visits. The \<open>k\<close>-th visit
  (from 0) reads the clock twice: \<open>clk (2 * k)\<close> inside \<open>_refill_tokens\<close> and
  \<open>clk (2 * k + 1)\<close> for the backoff test. The result is the index of the acquired
  instance, or \<open>None\<close>.
\<close>

fun acquire_loop ::
  "nat \<Rightarrow> nat \<Rightarrow> (nat \<Rightarrow> real) \<Rightarrow> nitter_client \<Rightarrow> py_error + (nat option \<times> nitter_client)" where
  "acquire_loop 0 k clk c = Inr (None, c)"
| "acquire_loop (Suc n) k clk c =
     (if rotation_index c \<ge> length (states c) then Inl IndexError
      else
        let i = rotation_index c;
            c1 = c\<lparr>rotation_index := (i + 1) mod length (states c)\<rparr>;
            s = refill_tokens (max_requests_per_minute c) (clk (2 * k)) (states c ! i);
            now = clk (2 * k + 1)
        in if now < backoff_until s then acquire_loop n (k + 1) clk (c1\<lparr>states := (states c)[i := s]\<rparr>)
           else if tokens s < 1 then acquire_loop n (k + 1) clk (c1\<lparr>states := (states c)[i := s]\<rparr>)
           else Inr (Some i, c1\<lparr>states := (states c)[i := s\<lparr>tokens := tokens s - 1\<rparr>]\<rparr>))"

definition acquire_instance ::
  "(nat \<Rightarrow> real) \<Rightarrow> nitter_client \<Rightarrow> py_error + (nat option \<times> nitter_client)" where
  "acquire_instance clk c = acquire_loop (length (states c)) 0 clk c"

text \<open>\<open>str\<close> of an integer, for \<open>f"HTTP {status_code}"\<close>.\<close>

function str_nat :: "nat \<Rightarrow> string" where
  "str_nat n =
     (if n < 10 then [''0123456789'' ! n]
      else str_nat (n div 10) @ [''0123456789'' ! (n mod 10)])"
  by pat_completeness auto
termination
  by (relation "measure (\<lambda>n. n)") auto

declare str_nat.simps [simp del]

definition str_int :: "int \<Rightarrow> string" where
  "str_int i = (if i < 0 then CHR ''-'' # str_nat (nat (- i)) else str_nat (nat i))"

text \<open>
  \<open>NitterClient._release_instance_on_error\<close>; \<open>now\<close> is its reading of the clock. The test
  \<open>if status_code\<close> is Python truthiness: \<open>None\<close> and \<open>0\<close> are false.
\<close>

definition error_text :: "int option \<Rightarrow> string" where
  "error_text status_code =
     (case status_code of
        None \<Rightarrow> ''Request-Fehler''
      | Some code \<Rightarrow> if code \<noteq> 0 then ''HTTP '' @ str_int code else ''Request-Fehler'')"

definition release_instance_on_error ::
  "int \<Rightarrow> real \<Rightarrow> int option \<Rightarrow> instance_state \<Rightarrow> instance_state" where
  "release_instance_on_error base now status_code s =
     (let errors = consecutive_errors s + 1;
          penalty = min 600 (base * 2 ^ (errors - 1))
      in s\<lparr>consecutive_errors := errors,
           backoff_until := now + real_of_int penalty,
           last_error := Some (error_text status_code)\<rparr>)"

text \<open>\<open>NitterClient._release_instance_on_success\<close>.\<close>

definition release_instance_on_success :: "real \<Rightarrow> instance_state \<Rightarrow> instance_state" where
  "release_instance_on_success rtt s =
     s\<lparr>consecutive_errors := 0, backoff_until := 0, last_error := None, last_rtt := Some rtt\<rparr>"

text \<open>A method that mutates the \<open>InstanceState\<close> object at index \<open>i\<close>.\<close>

definition on_state :: "nat \<Rightarrow> (instance_state \<Rightarrow> instance_state) \<Rightarrow> nitter_client \<Rightarrow> nitter_client" where
  "on_state i f c = c\<lparr>states := (states c)[i := f (states c ! i)]\<rparr>"

text \<open>\<open>NitterClient._construct_url\<close>.\<close>

definition construct_url :: "instance_state \<Rightarrow> string \<Rightarrow> string \<Rightarrow> string" where
  "construct_url s target_type val =
     base_url s @
       (if target_type = ''user'' then ''/'' @ val @ ''/rss''
        else ''/search/rss?f=tweets&q=%23'' @ val)"

section \<open>nitter\_client.py: the two parsers\<close>

text \<open>
  What \<open>feedparser.parse(response.content)\<close> returns (feedparser is a third-party
  library): the \<open>bozo\<close> flag and the entries, each with the attributes the code reads
  through \<open>getattr\<close> (\<open>None\<close>: the attribute is missing) and the entry itself as JSON.
\<close>

record feed_entry =
  fe_id :: "string option"
  fe_guid :: "string option"
  fe_title :: "string option"
  fe_summary :: "string option"
  fe_link :: "string option"
  fe_published :: "string option"
  fe_json :: json

record parsed_feed =
  bozo :: bool
  feed_entries :: "feed_entry list"

text \<open>The dictionaries both parsers build.\<close>

record entry =
  e_id :: string
  e_title :: string
  e_summary :: string
  e_link :: string
  e_published :: string
  e_raw :: json

text \<open>\<open>a or b\<close> on strings that may be missing, and \<open>getattr(entry, name, "")\<close>.\<close>

definition truthy :: "string option \<Rightarrow> bool" where
  "truthy a = (case a of None \<Rightarrow> False | Some s \<Rightarrow> s \<noteq> [])"

definition or_empty :: "string option \<Rightarrow> string" where
  "or_empty a = (case a of None \<Rightarrow> [] | Some s \<Rightarrow> s)"

text \<open>\<open>NitterClient._parse_rss\<close>.\<close>

definition rss_entry_id :: "feed_entry \<Rightarrow> string" where
  "rss_entry_id e =
     (if truthy (fe_id e) then or_empty (fe_id e)
      else if truthy (fe_guid e) then or_empty (fe_guid e)
      else [])"

definition rss_entry :: "feed_entry \<Rightarrow> entry" where
  "rss_entry e =
     \<lparr>e_id = rss_entry_id e, e_title = or_empty (fe_title e), e_summary = or_empty (fe_summary e),
      e_link = or_empty (fe_link e), e_published = or_empty (fe_published e), e_raw = fe_json e\<rparr>"

definition parse_rss :: "parsed_feed \<Rightarrow> entry list" where
  "parse_rss feed =
     (if bozo feed then []
      else map rss_entry (filter (\<lambda>e. rss_entry_id e \<noteq> []) (feed_entries feed)))"

text \<open>
  Characters are the code points 0 to 255. Among them \<open>\d\<close> matches the ten ASCII digits
  and \<open>\s\<close> matches 9 to 13, 28 to 32, 133 and 160 (Python's Unicode whitespace).
\<close>

definition is_digit :: "char \<Rightarrow> bool" where
  "is_digit c = (let n = (of_char c :: nat) in 48 \<le> n \<and> n \<le> 57)"

definition is_space :: "char \<Rightarrow> bool" where
  "is_space c =
     (let n = (of_char c :: nat)
      in (9 \<le> n \<and> n \<le> 13) \<or> (28 \<le> n \<and> n \<le> 32) \<or> n = 133 \<or> n = 160)"

text \<open>
  \<open>re.compile(r"/status/(\d+)")\<close> tried at the head of \<open>s\<close>: group 1 is the longest run
  of digits after the literal.
\<close>

definition match_at :: "string \<Rightarrow> string option" where
  "match_at s =
     (if take 8 s = ''/status/'' \<and> takeWhile is_digit (drop 8 s) \<noteq> []
      then Some (takeWhile is_digit (drop 8 s)) else None)"

text \<open>
  \<open>pattern.finditer(html)\<close>: the matches from left to right, without overlap, each as
  (\<open>match.start()\<close>, \<open>match.group(1)\<close>); \<open>pos\<close> is the position of \<open>s\<close> in the body.
\<close>

function finditer :: "nat \<Rightarrow> string \<Rightarrow> (nat \<times> string) list" where
  "finditer pos s =
     (if s = [] then []
      else case match_at s of
             Some ds \<Rightarrow> (pos, ds) # finditer (pos + 8 + length ds) (drop (8 + length ds) s)
           | None \<Rightarrow> finditer (pos + 1) (tl s))"
  by pat_completeness auto
termination
  by (relation "measure (\<lambda>(pos, s). length s)") auto

declare finditer.simps [simp del]

text \<open>\<open>re.sub(r"\s+", " ", x)\<close>.\<close>

function normalize_ws :: "string \<Rightarrow> string" where
  "normalize_ws [] = []"
| "normalize_ws (c # cs) =
     (if is_space c then CHR '' '' # normalize_ws (dropWhile is_space cs)
      else c # normalize_ws cs)"
  by pat_completeness auto
termination
  by (relation "measure length") (auto simp: length_dropWhile_le less_Suc_eq_le)

text \<open>\<open>NitterClient._parse_html\<close>.\<close>

definition html_excerpt :: "string \<Rightarrow> nat \<Rightarrow> string" where
  "html_excerpt html match_start =
     (let start = (if match_start < 200 then 0 else match_start - 200)
      in normalize_ws (take 400 (drop start html)))"

definition html_entry :: "string \<Rightarrow> nat \<times> string \<Rightarrow> entry" where
  "html_entry html m =
     (let tweet_id = snd m;
          excerpt = html_excerpt html (fst m)
      in \<lparr>e_id = tweet_id, e_title = ''Tweet'', e_summary = excerpt, e_link = tweet_id,
          e_published = [], e_raw = JObject [(''excerpt'', JString excerpt)]\<rparr>)"

definition parse_html :: "string \<Rightarrow> entry list" where
  "parse_html html = map (html_entry html) (finditer 0 html)"

section \<open>nitter\_client.py: one fetch\<close>

text \<open>
  The response of \<open>session.get\<close>, as far as the code reads it: the status code,
  \<open>headers.get("Content-Type")\<close>, \<open>text\<close>, and what feedparser makes of \<open>content\<close>.
\<close>

record response =
  resp_status_code :: int
  resp_content_type :: "string option"
  resp_text :: string
  resp_feed :: parsed_feed

text \<open>\<open>session.get\<close> returns a response or raises; of the exception only \<open>str(exc)\<close> is kept.\<close>

datatype http_outcome = Raised string | Returned response

text \<open>\<open>NitterClient._fetch\<close>: the pair (response, exception).\<close>

definition fetch :: "http_outcome \<Rightarrow> response option \<times> string option" where
  "fetch outcome = (case outcome of Returned r \<Rightarrow> (Some r, None) | Raised msg \<Rightarrow> (None, Some msg))"

text \<open>\<open>sub in s\<close> on strings.\<close>

fun py_in :: "string \<Rightarrow> string \<Rightarrow> bool" where
  "py_in sub [] = (sub = [])"
| "py_in sub (c # cs) = (take (length sub) (c # cs) = sub \<or> py_in sub cs)"

text \<open>
  What one call of \<open>fetch_target\<close> meets outside the client: the clock readings of
  \<open>_acquire_instance\<close>, the two readings around the request, the reading of
  \<open>_release_instance_on_error\<close>, and the outcome of the request for each URL.
\<close>

record fetch_env =
  env_acquire_clock :: "nat \<Rightarrow> real"
  env_start :: real
  env_end :: real
  env_release :: real
  env_http :: "string \<Rightarrow> http_outcome"

definition no_instance_message :: string where
  "no_instance_message = ''Keine verf'' @ [CHR 0xFC] @ ''gbare Instanz (Rate-Limit oder Backoff).''"

text \<open>
  \<open>NitterClient.fetch_target\<close>: (entries, instance, error) and the client afterwards.
  An exception object is true in \<open>if error\<close>.
\<close>

definition fetch_target ::
  "fetch_env \<Rightarrow> nitter_client \<Rightarrow> string \<Rightarrow> string
    \<Rightarrow> py_error + ((entry list \<times> string option \<times> string option) \<times> nitter_client)" where
  "fetch_target env c target_type val =
     (case acquire_instance (env_acquire_clock env) c of
        Inl e \<Rightarrow> Inl e
      | Inr (None, c1) \<Rightarrow> Inr (([], None, Some no_instance_message), c1)
      | Inr (Some i, c1) \<Rightarrow>
          let st = states c1 ! i;
              url = construct_url st target_type val;
              (resp, error) = fetch (env_http env url);
              rtt = env_end env - env_start env;
              failed = (\<lambda>code. on_state i
                 (release_instance_on_error (backoff_base_seconds c1) (env_release env) code) c1)
          in case error of
               Some msg \<Rightarrow> Inr (([], Some (base_url st), Some msg), failed None)
             | None \<Rightarrow>
                 (case resp of
                    None \<Rightarrow> Inr (([], Some (base_url st), Some ''Unbekannter Fehler''), failed None)
                  | Some r \<Rightarrow>
                      if resp_status_code r \<ge> 400
                      then Inr (([], Some (base_url st), Some (''HTTP '' @ str_int (resp_status_code r))),
                                failed (Some (resp_status_code r)))
                      else
                        let entries = parse_rss (resp_feed r);
                            entries' =
                              (if entries = [] \<and> \<not> py_in ''xml'' (or_empty (resp_content_type r))
                               then parse_html (resp_text r) else entries)
                        in Inr ((entries', Some (base_url st), None),
                                on_state i (release_instance_on_success rtt) c1)))"

section \<open>app.py: the event broker\<close>

text \<open>
  \<open>queue.Queue\<close>: \<open>maxsize\<close> and the items; \<open>put_nowait\<close> raises \<open>queue.Full\<close> (here
  \<open>None\<close>) when \<open>maxsize > 0\<close> and the queue holds \<open>maxsize\<close> items.
\<close>

record py_queue =
  q_maxsize :: int
  q_items :: "string list"

definition put_nowait :: "string \<Rightarrow> py_queue \<Rightarrow> py_queue option" where
  "put_nowait item q =
     (if q_maxsize q > 0 \<and> int (length (q_items q)) \<ge> q_maxsize q then None
      else Some (q\<lparr>q_items := q_items q @ [item]\<rparr>))"

text \<open>
  \<open>EventBroker\<close>. The queues are objects shared with the transport, so they live in a
  store of their own, by reference; \<open>_clients\<close> is the list of references.
\<close>

record event_broker =
  br_queues :: "nat \<Rightarrow> py_queue option"
  br_clients :: "nat list"
  br_fresh :: nat

definition new_broker :: event_broker where
  "new_broker = \<lparr>br_queues = (\<lambda>_. None), br_clients = [], br_fresh = 0\<rparr>"

text \<open>\<open>EventBroker.register\<close>: \<open>queue.Queue()\<close> has \<open>maxsize = 0\<close>.\<close>

definition register :: "event_broker \<Rightarrow> nat \<times> event_broker" where
  "register b =
     (br_fresh b,
      b\<lparr>br_queues := (br_queues b)(br_fresh b \<mapsto> \<lparr>q_maxsize = 0, q_items = []\<rparr>),
        br_clients := br_clients b @ [br_fresh b],
        br_fresh := Suc (br_fresh b)\<rparr>)"

text \<open>\<open>EventBroker.unregister\<close>.\<close>

definition unregister :: "nat \<Rightarrow> event_broker \<Rightarrow> event_broker" where
  "unregister q b = (if q \<in> set (br_clients b) then b\<lparr>br_clients := remove1 q (br_clients b)\<rparr> else b)"

text \<open>\<open>EventBroker.publish\<close>: the loop runs over a copy of \<open>_clients\<close>.\<close>

definition publish_to :: "string \<Rightarrow> event_broker \<Rightarrow> nat \<Rightarrow> event_broker" where
  "publish_to payload b q =
     (case br_queues b q of
        None \<Rightarrow> b
      | Some qu \<Rightarrow>
          (case put_nowait payload qu of
             None \<Rightarrow> b\<lparr>br_clients := remove1 q (br_clients b)\<rparr>
           | Some qu' \<Rightarrow> b\<lparr>br_queues := (br_queues b)(q \<mapsto> qu')\<rparr>))"

definition event_payload :: "(json \<Rightarrow> string) \<Rightarrow> string \<Rightarrow> json \<Rightarrow> string" where
  "event_payload dumps event_type data = dumps (JObject [(''type'', JString event_type), (''data'', data)])"

definition publish :: "(json \<Rightarrow> string) \<Rightarrow> string \<Rightarrow> json \<Rightarrow> event_broker \<Rightarrow> event_broker" where
  "publish dumps event_type data b =
     foldl (publish_to (event_payload dumps event_type data)) b (br_clients b)"

text \<open>The transport's \<open>client_queue.get\<close>: the oldest payload, if there is one.\<close>

definition queue_get :: "nat \<Rightarrow> event_broker \<Rightarrow> string option \<times> event_broker" where
  "queue_get q b =
     (case br_queues b q of
        None \<Rightarrow> (None, b)
      | Some qu \<Rightarrow>
          (case q_items qu of
             [] \<Rightarrow> (None, b)
           | x # xs \<Rightarrow> (Some x, b\<lparr>br_queues := (br_queues b)(q \<mapsto> qu\<lparr>q_items := xs\<rparr>)\<rparr>)))"

text \<open>Everything the application does to a broker, and a run of such operations.\<close>

datatype broker_op = Register | Unregister nat | Publish string json | Get nat

fun broker_step :: "(json \<Rightarrow> string) \<Rightarrow> event_broker \<Rightarrow> broker_op \<Rightarrow> event_broker" where
  "broker_step dumps b Register = snd (register b)"
| "broker_step dumps b (Unregister q) = unregister q b"
| "broker_step dumps b (Publish event_type data) = publish dumps event_type data b"
| "broker_step dumps b (Get q) = snd (queue_get q b)"

definition broker_run :: "(json \<Rightarrow> string) \<Rightarrow> broker_op list \<Rightarrow> event_broker" where
  "broker_run dumps ops = foldl (broker_step dumps) new_broker ops"

section \<open>app.py: storing entries, one fetch of a target, the scheduler's test\<close>

record app_state =
  app_storage :: storage
  app_client :: nitter_client
  app_broker :: "event_broker option"
  app_last_run :: "string option"

record fetch_summary =
  sum_target :: string
  sum_new :: nat
  sum_error :: "string option"
  sum_instance :: "string option"

text \<open>
  What \<open>_fetch_target\<close> meets outside the application: the environment of the client's
  fetch, \<open>now_iso\<close>, and the readings \<open>datetime.now(timezone.utc).isoformat()\<close> of
  \<open>_store_entries\<close> (for the \<open>j\<close>-th entry, \<open>env_wall (2 * j)\<close> is the default of
  \<open>created_at\<close> and \<open>env_wall (2 * j + 1)\<close> is \<open>fetched_at\<close>).
\<close>

record app_env =
  env_fetch :: fetch_env
  env_now_iso :: string
  env_wall :: "nat \<Rightarrow> string"

definition json_opt :: "string option \<Rightarrow> json" where
  "json_opt a = (case a of None \<Rightarrow> JNull | Some s \<Rightarrow> JString s)"

definition json_int_opt :: "int option \<Rightarrow> json" where
  "json_int_opt a = (case a of None \<Rightarrow> JNull | Some n \<Rightarrow> JInt n)"

definition publish_opt ::
  "(json \<Rightarrow> string) \<Rightarrow> string \<Rightarrow> json \<Rightarrow> event_broker option \<Rightarrow> event_broker option" where
  "publish_opt dumps event_type data broker = map_option (publish dumps event_type data) broker"

text \<open>The loop of \<open>_store_entries\<close>: the store, the broker and \<open>new_count\<close> after it.\<close>

fun store_loop ::
  "(json \<Rightarrow> string) \<Rightarrow> (nat \<Rightarrow> string) \<Rightarrow> target_row \<Rightarrow> string option \<Rightarrow> nat \<Rightarrow> entry list
    \<Rightarrow> storage \<times> event_broker option \<times> nat \<Rightarrow> storage \<times> event_broker option \<times> nat" where
  "store_loop dumps wall target_row instance j [] acc = acc"
| "store_loop dumps wall target_row instance j (e # es) (db, broker, new_count) =
     (let tweet_id = (if e_id e \<noteq> [] then e_id e else e_link e);
          content = (if e_title e \<noteq> [] then e_title e else e_summary e);
          created_at = (if e_published e \<noteq> [] then e_published e else wall (2 * j));
          raw = e_raw e
      in if tweet_id = [] then store_loop dumps wall target_row instance (j + 1) es (db, broker, new_count)
         else
           let r = upsert_tweet dumps db tweet_id (tg_type target_row @ '':'' @ tg_value target_row)
                     content created_at raw (wall (2 * j + 1)) (or_empty instance)
           in if snd r
              then store_loop dumps wall target_row instance (j + 1) es
                     (fst r,
                      publish_opt dumps ''new_tweet''
                        (JObject [(''target'', JString (tg_value target_row)),
                                  (''target_id'', JInt (tg_id target_row)),
                                  (''tweet_id'', JString tweet_id),
                                  (''created_at'', JString created_at)])
                        broker,
                      new_count + 1)
              else store_loop dumps wall target_row instance (j + 1) es (fst r, broker, new_count))"

text \<open>
  \<open>_store_entries\<close>; \<open>keep_limit\<close> is \<open>config.get("keep_only_last_n_per_target")\<close>, and
  \<open>if keep_limit\<close> is false for \<open>None\<close> and for 0.
\<close>

definition store_entries ::
  "(string \<Rightarrow> 'k::linorder) \<Rightarrow> (json \<Rightarrow> string) \<Rightarrow> (nat \<Rightarrow> string) \<Rightarrow> int option \<Rightarrow> target_row
    \<Rightarrow> entry list \<Rightarrow> string option \<Rightarrow> storage \<times> event_broker option
    \<Rightarrow> nat \<times> storage \<times> event_broker option" where
  "store_entries dt dumps wall keep_limit target_row entries instance sb =
     (let r = store_loop dumps wall target_row instance 0 entries (fst sb, snd sb, 0);
          db = fst r
      in (snd (snd r),
          (case keep_limit of
             None \<Rightarrow> db
           | Some n \<Rightarrow> if n \<noteq> 0 then prune_old_entries dt db n else db),
          fst (snd r)))"

text \<open>
  \<open>_fetch_target\<close>. \<open>if error\<close> is truthiness of the error text: \<open>None\<close> and the empty
  string are false.
\<close>

definition first_entry_id :: "entry list \<Rightarrow> string option" where
  "first_entry_id entries = (case entries of [] \<Rightarrow> None | e # _ \<Rightarrow> Some (e_id e))"

definition app_fetch_target ::
  "(string \<Rightarrow> 'k::linorder) \<Rightarrow> (json \<Rightarrow> string) \<Rightarrow> int option \<Rightarrow> app_env \<Rightarrow> app_state \<Rightarrow> target_row
    \<Rightarrow> py_error + (fetch_summary \<times> app_state)" where
  "app_fetch_target dt dumps keep_limit env app target_row =
     (case fetch_target (env_fetch env) (app_client app) (tg_type target_row) (tg_value target_row) of
        Inl e \<Rightarrow> Inl e
      | Inr ((entries, instance, error), c) \<Rightarrow>
          let now_iso = env_now_iso env;
              app1 = app\<lparr>app_client := c\<rparr>
          in if truthy error
             then Inr (\<lparr>sum_target = tg_value target_row, sum_new = 0, sum_error = error,
                         sum_instance = instance\<rparr>,
                       app1\<lparr>app_broker :=
                          publish_opt dumps ''error''
                            (JObject [(''target'', JString (tg_value target_row)),
                                      (''message'', json_opt error),
                                      (''instance'', json_opt instance)])
                            (app_broker app1)\<rparr>)
             else
               let r = store_entries dt dumps (env_wall env) keep_limit target_row entries instance
                         (app_storage app1, app_broker app1);
                   db = update_target_fetch_state (fst (snd r)) (tg_id target_row)
                          (first_entry_id entries) (Some now_iso)
               in Inr (\<lparr>sum_target = tg_value target_row, sum_new = fst r, sum_error = None,
                          sum_instance = instance\<rparr>,
                       app1\<lparr>app_storage := db,
                            app_last_run := Some now_iso,
                            app_broker :=
                              publish_opt dumps ''cooldown''
                                (JObject [(''target'', JString (tg_value target_row)),
                                          (''next_run_in'', json_int_opt (tg_poll_interval_seconds target_row))])
                                (snd (snd r))\<rparr>))"

text \<open>
  The test of \<open>Scheduler.run\<close> for one target. \<open>datetime.fromisoformat\<close> is the argument
  \<open>fromisoformat\<close>: the instant in seconds, or \<open>None\<close> for \<open>ValueError\<close>; \<open>now\<close> is the
  instant of the cycle.
\<close>

definition poll_interval :: "target_row \<Rightarrow> int" where
  "poll_interval t =
     (case tg_poll_interval_seconds t of None \<Rightarrow> 300 | Some n \<Rightarrow> if n \<noteq> 0 then n else 300)"

definition due :: "(string \<Rightarrow> real option) \<Rightarrow> real \<Rightarrow> target_row \<Rightarrow> bool" where
  "due fromisoformat now t =
     (if truthy (tg_last_fetched_at t)
      then (case fromisoformat (or_empty (tg_last_fetched_at t)) of
              None \<Rightarrow> True
            | Some last_dt \<Rightarrow> now - last_dt \<ge> real_of_int (poll_interval t))
      else True)"

text \<open>\<open>Storage.get_target\<close>: the row with that id.\<close>

definition get_target :: "storage \<Rightarrow> int \<Rightarrow> target_row option" where
  "get_target db target_id = find (\<lambda>t. tg_id t = target_id) (targets db)"

section \<open>Runs of operations on the pool\<close>

text \<open>A run of consecutive failures on one instance: each with its clock reading and status.\<close>

definition release_errors :: "int \<Rightarrow> (real \<times> int option) list \<Rightarrow> instance_state \<Rightarrow> instance_state" where
  "release_errors base fs s = foldl (\<lambda>s f. release_instance_on_error base (fst f) (snd f) s) s fs"

definition state_ok :: "int \<Rightarrow> instance_state \<Rightarrow> bool" where
  "state_ok max_rpm s = (0 \<le> tokens s \<and> tokens s \<le> real_of_int max_rpm \<and> 0 \<le> backoff_until s)"

definition pool_inv :: "nitter_client \<Rightarrow> bool" where
  "pool_inv c =
     (rotation_index c < length (states c) \<and> 0 \<le> max_requests_per_minute c \<and>
      1 \<le> backoff_base_seconds c \<and> list_all (state_ok (max_requests_per_minute c)) (states c))"

datatype pool_op =
    Refill nat real
  | Acquire "nat \<Rightarrow> real"
  | ReleaseSuccess nat real
  | ReleaseError nat "int option" real

fun pool_step :: "nitter_client \<Rightarrow> pool_op \<Rightarrow> nitter_client option" where
  "pool_step c (Refill i now) = Some (on_state i (refill_tokens (max_requests_per_minute c) now) c)"
| "pool_step c (Acquire clk) =
     (case acquire_instance clk c of Inl e \<Rightarrow> None | Inr r \<Rightarrow> Some (snd r))"
| "pool_step c (ReleaseSuccess i rtt) = Some (on_state i (release_instance_on_success rtt) c)"
| "pool_step c (ReleaseError i code now) =
     Some (on_state i (release_instance_on_error (backoff_base_seconds c) now code) c)"

fun pool_run :: "nitter_client \<Rightarrow> pool_op list \<Rightarrow> nitter_client option" where
  "pool_run c [] = Some c"
| "pool_run c (x # xs) = (case pool_step c x of None \<Rightarrow> None | Some c' \<Rightarrow> pool_run c' xs)"

fun op_clock_ok :: "pool_op \<Rightarrow> bool" where
  "op_clock_ok (ReleaseError i code now) = (0 \<le> now)"
| "op_clock_ok _ = True"

text \<open>Successive acquisitions: the base URL each one returns, or \<open>None\<close>.\<close>

fun acquisitions :: "nitter_client \<Rightarrow> (nat \<Rightarrow> real) list \<Rightarrow> py_error + string option list" where
  "acquisitions c [] = Inr []"
| "acquisitions c (clk # clks) =
     (case acquire_instance clk c of
        Inl e \<Rightarrow> Inl e
      | Inr r \<Rightarrow>
          (case acquisitions (snd r) clks of
             Inl e \<Rightarrow> Inl e
           | Inr rs \<Rightarrow> Inr (map_option (\<lambda>i. base_url (states (snd r) ! i)) (fst r) # rs)))"

definition start_and_acquire ::
  "(nat \<Rightarrow> real) \<Rightarrow> string list \<Rightarrow> int \<Rightarrow> int \<Rightarrow> (nat \<Rightarrow> real) list \<Rightarrow> py_error + string option list" where
  "start_and_acquire created instances max_rpm base clks =
     (case client_init created instances max_rpm base of
        Inl e \<Rightarrow> Inl e
      | Inr c \<Rightarrow> acquisitions c clks)"

text \<open>
  A bucket of capacity 2 that held \<open>m\<close> tokens at some moment not before \<open>t0\<close> and has
  only been refilled since, at readings before \<open>t0 + 30\<close>.
\<close>

definition bucket :: "real \<Rightarrow> real \<Rightarrow> instance_state \<Rightarrow> bool" where
  "bucket t0 m s =
     (backoff_until s = 0 \<and> t0 \<le> last_refill s \<and> m \<le> tokens s \<and>
      (tokens s = m \<or> (last_refill s < t0 + 30 \<and> tokens s \<le> m + (last_refill s - t0) / 30)))"

text \<open>The client of scenario S1: two instances, capacity 2.\<close>

definition pair_client :: "int \<Rightarrow> instance_state \<Rightarrow> instance_state \<Rightarrow> nat \<Rightarrow> nitter_client" where
  "pair_client base a b r =
     \<lparr>backoff_base_seconds = base, states = [a, b], max_requests_per_minute = 2, rotation_index = r\<rparr>"

text \<open>
  Every reading of the clock \<open>clk\<close> lies in the 29 seconds that start at \<open>t0\<close>. A bucket
  of capacity 2 gains a token in 30 seconds; the second of margin keeps the rounding of
  Python's floats, which the model does not have, away from the threshold.
\<close>

definition in_window :: "real \<Rightarrow> (nat \<Rightarrow> real) \<Rightarrow> bool" where
  "in_window t0 clk = (\<forall>j. t0 \<le> clk j \<and> clk j \<le> t0 + 29)"

section \<open>Occurrences of the status pattern, and the window as the specification words it\<close>

text \<open>
  An occurrence of \<open>/status/<digits>\<close> at position \<open>i\<close> of the body, and the
  positions of all occurrences in ascending order.
\<close>

definition occurs_at :: "string \<Rightarrow> nat \<Rightarrow> bool" where
  "occurs_at html i =
     (take 8 (drop i html) = ''/status/'' \<and> i + 8 < length html \<and> is_digit (html ! (i + 8)))"

definition occurrences :: "string \<Rightarrow> nat list" where
  "occurrences html = filter (occurs_at html) [0..<length html]"

text \<open>
  The window as the specification words it, for a match from \<open>ms\<close> to \<open>me\<close>: the 200
  characters before the match and the 200 characters after it, read with the matched
  text between the two halves, without it, and with the second half counted from the
  start of the match.
\<close>

definition claimed_window_with_match :: "string \<Rightarrow> nat \<Rightarrow> nat \<Rightarrow> string" where
  "claimed_window_with_match html ms me = normalize_ws (drop (ms - 200) (take (me + 200) html))"

definition claimed_window_without_match :: "string \<Rightarrow> nat \<Rightarrow> nat \<Rightarrow> string" where
  "claimed_window_without_match html ms me =
     normalize_ws (drop (ms - 200) (take ms html) @ take 200 (drop me html))"

definition claimed_window_from_match_start :: "string \<Rightarrow> nat \<Rightarrow> string" where
  "claimed_window_from_match_start html ms = normalize_ws (drop (ms - 200) (take (ms + 200) html))"

section \<open>Predicates on brokers\<close>

text \<open>
  What holds of every broker the application can reach: the references are fresh numbers,
  no subscriber is listed twice, and every queue is unbounded.
\<close>

definition broker_ok :: "event_broker \<Rightarrow> bool" where
  "broker_ok b =
     (distinct (br_clients b) \<and>
      (\<forall>q. (q \<in> set (br_clients b) \<longrightarrow> br_queues b q \<noteq> None) \<and>
           (br_queues b q \<noteq> None \<longrightarrow> q < br_fresh b) \<and>
           (\<forall>qu. br_queues b q = Some qu \<longrightarrow> q_maxsize qu = 0)))"

text \<open>
  \<open>Queue.full()\<close>, for the queue of a subscriber: \<open>0 < maxsize \<le> qsize\<close>, the condition
  under which \<open>put_nowait\<close> raises \<open>queue.Full\<close>.
\<close>

definition queue_full :: "event_broker \<Rightarrow> nat \<Rightarrow> bool" where
  "queue_full b q =
     (case br_queues b q of
        None \<Rightarrow> False
      | Some qu \<Rightarrow> q_maxsize qu > 0 \<and> int (length (q_items qu)) \<ge> q_maxsize qu)"

section \<open>Sample values for the closed theorems\<close>

definition sample_dumps :: "json \<Rightarrow> string" where
  "sample_dumps j = (case j of JObject [] \<Rightarrow> ''{}'' | _ \<Rightarrow> ''null'')"

definition sample_call :: "string \<Rightarrow> string \<Rightarrow> upsert_call" where
  "sample_call i t =
     \<lparr>c_id = i, c_target = ''user:alice'', c_content = ''hello'', c_created_at = t,
      c_raw = JObject [], c_fetched_at = t, c_instance = ''https://a''\<rparr>"

definition empty_storage :: storage where
  "empty_storage = \<lparr>tweets = [], targets = []\<rparr>"

definition sample_row :: "string \<Rightarrow> string \<Rightarrow> string \<Rightarrow> tweet_row" where
  "sample_row i target t =
     \<lparr>tw_id = i, tw_target = target, tw_content = ''hello'', tw_created_at = t,
      tw_raw = Some ''{}'', tw_fetched_at = t, tw_instance = ''https://a''\<rparr>"

definition sample_storage :: storage where
  "sample_storage =
     \<lparr>tweets = [sample_row ''t2'' ''user:alice'' ''2024-01-01 00:00:02'',
                sample_row ''t1'' ''user:alice'' ''2024-01-01 00:00:01'',
                sample_row ''b1'' ''hashtag:news'' ''2024-01-01 00:00:00'',
                sample_row ''t3'' ''user:alice'' ''2024-01-01 00:00:03''],
      targets = []\<rparr>"

definition sample_client :: nitter_client where
  "sample_client =
     \<lparr>backoff_base_seconds = 2,
      states = [new_state ''https://a'' 2 0, new_state ''https://b/'' 2 0],
      max_requests_per_minute = 2,
      rotation_index = 0\<rparr>"

definition sample_ops :: "pool_op list" where
  "sample_ops = [Acquire (\<lambda>j. 1), ReleaseError 0 (Some 503) 2, Refill 1 3, Acquire (\<lambda>j. 4), ReleaseSuccess 1 (1/2)]"

definition sample_long_body :: string where
  "sample_long_body = ''/status/7'' @ replicate 250 (CHR ''x'')"

definition sample_html_body :: string where
  "sample_html_body = ''<a href='' @ [CHR 0x22] @ ''/user/status/12345'' @ [CHR 0x22] @ ''>tweet</a>''"

definition sample_html_response :: response where
  "sample_html_response =
     \<lparr>resp_status_code = 200, resp_content_type = Some ''text/html; charset=utf-8'',
      resp_text = sample_html_body, resp_feed = \<lparr>bozo = True, feed_entries = []\<rparr>\<rparr>"

definition sample_fetch_env :: "http_outcome \<Rightarrow> fetch_env" where
  "sample_fetch_env outcome =
     \<lparr>env_acquire_clock = (\<lambda>j. 1), env_start = 1, env_end = 3 / 2, env_release = 2,
      env_http = (\<lambda>url. if url = ''https://a/alice/rss'' then outcome else Raised ''connection refused'')\<rparr>"

definition sample_loads :: "string \<Rightarrow> json option" where
  "sample_loads s = (if s = ''{}'' then Some (JObject []) else None)"

definition sample_bad_storage :: storage where
  "sample_bad_storage =
     \<lparr>tweets = [sample_row ''t1'' ''user:alice'' ''2024-01-01 00:00:01'',
                (sample_row ''t2'' ''user:alice'' ''2024-01-01 00:00:02'')\<lparr>tw_raw := Some ''not json''\<rparr>,
                sample_row ''t3'' ''user:alice'' ''2024-01-01 00:00:03''],
      targets = []\<rparr>"

definition sample_target :: target_row where
  "sample_target =
     \<lparr>tg_id = 1, tg_type = ''user'', tg_value = ''alice'', tg_poll_interval_seconds = Some 60,
      tg_last_fetched_id = Some ''t9'', tg_last_fetched_at = Some ''2024-01-01T00:00:00+00:00''\<rparr>"

definition sample_app :: app_state where
  "sample_app =
     \<lparr>app_storage = sample_storage\<lparr>targets := [sample_target]\<rparr>, app_client = sample_client,
      app_broker = Some (snd (register new_broker)), app_last_run = None\<rparr>"

definition sample_app_env :: "http_outcome \<Rightarrow> app_env" where
  "sample_app_env outcome =
     \<lparr>env_fetch = sample_fetch_env outcome, env_now_iso = ''2024-01-01T00:10:00+00:00'',
      env_wall = (\<lambda>j. ''2024-01-01T00:10:00+00:00'')\<rparr>"

definition sample_fromisoformat :: "string \<Rightarrow> real option" where
  "sample_fromisoformat s =
     (if s = ''2024-01-01T00:00:00+00:00'' then Some 0
      else if s = ''2024-01-01T00:10:00+00:00'' then Some 600
      else None)"

definition sample_empty_feed_response :: response where
  "sample_empty_feed_response =
     \<lparr>resp_status_code = 200, resp_content_type = Some ''application/rss+xml'',
      resp_text = [], resp_feed = \<lparr>bozo = False, feed_entries = []\<rparr>\<rparr>"

text \<open>
  SQLite's \<open>datetime()\<close> on the texts of the samples: a text that begins with a digit stands
  for one in the form \<open>YYYY-MM-DD HH:MM:SS\<close>, which \<open>datetime()\<close> returns as it is; on a text
  that begins otherwise, such as the RFC 822 date of a feed's \<open>published\<close>, \<open>datetime()\<close> is
  NULL.
\<close>

definition sample_datetime :: "string \<Rightarrow> string option" where
  "sample_datetime s = (case s of [] \<Rightarrow> None | c # cs \<Rightarrow> if is_digit c then Some s else None)"

text \<open>
  Three posts of one feed, stored in the order of their dates with the \<open>published\<close> text of
  the feed as \<open>created_at\<close>.
\<close>

definition sample_feed_storage :: storage where
  "sample_feed_storage =
     \<lparr>tweets = [sample_row ''r1'' ''user:alice'' ''Mon, 01 Jan 2024 10:00:00 GMT'',
                sample_row ''r2'' ''user:alice'' ''Tue, 02 Jan 2024 10:00:00 GMT'',
                sample_row ''r3'' ''user:alice'' ''Wed, 03 Jan 2024 10:00:00 GMT''],
      targets = []\<rparr>"

text \<open>
  Two subscribers whose queues have capacity 1, and the broker after one publish that
  only the second subscriber has read.
\<close>

definition sample_bounded_broker :: event_broker where
  "sample_bounded_broker =
     \<lparr>br_queues = (\<lambda>_. None)(0 \<mapsto> \<lparr>q_maxsize = 1, q_items = []\<rparr>,
                                 1 \<mapsto> \<lparr>q_maxsize = 1, q_items = []\<rparr>),
      br_clients = [0, 1], br_fresh = 2\<rparr>"

definition sample_slow_broker :: event_broker where
  "sample_slow_broker =
     snd (queue_get 1 (publish sample_dumps ''tick'' JNull sample_bounded_broker))"

section \<open>The dedupe invariant of the store\<close>

lemma upsert_call_of_tweets:
  "tweets (fst (upsert_call_of dumps db c)) =
     (if c_id c \<in> set (map tw_id (tweets db)) then tweets db
      else tweets db @ [\<lparr>tw_id = c_id c, tw_target = c_target c, tw_content = c_content c,
              tw_created_at = c_created_at c, tw_raw = Some (dumps (c_raw c)),
              tw_fetched_at = c_fetched_at c, tw_instance = c_instance c\<rparr>])"
  by (simp add: upsert_call_of_def upsert_tweet_def Let_def)

lemma upsert_call_of_returns:
  "snd (upsert_call_of dumps db c) = (c_id c \<notin> set (map tw_id (tweets db)))"
  by (simp add: upsert_call_of_def upsert_tweet_def Let_def)

lemma upsert_call_of_unchanged:
  "\<not> snd (upsert_call_of dumps db c) \<Longrightarrow> fst (upsert_call_of dumps db c) = db"
  by (simp add: upsert_call_of_def upsert_tweet_def Let_def split: if_splits)

lemma upsert_call_of_ids:
  "set (map tw_id (tweets (fst (upsert_call_of dumps db c)))) = insert (c_id c) (set (map tw_id (tweets db)))"
  by (auto simp: upsert_call_of_tweets)

lemma upsert_call_of_ids_image:
  "tw_id ` set (tweets (fst (upsert_call_of dumps db c))) = insert (c_id c) (tw_id ` set (tweets db))"
  using upsert_call_of_ids[of dumps db c] by simp

lemma upsert_call_of_distinct:
  "distinct (map tw_id (tweets db)) \<Longrightarrow> distinct (map tw_id (tweets (fst (upsert_call_of dumps db c))))"
  by (auto simp: upsert_call_of_tweets)

lemma upsert_calls_append:
  "upsert_calls dumps db (xs @ ys) = upsert_calls dumps (upsert_calls dumps db xs) ys"
  by (induction xs arbitrary: db) auto

lemma upsert_calls_ids:
  "set (map tw_id (tweets (upsert_calls dumps db cs))) = set (map tw_id (tweets db)) \<union> set (map c_id cs)"
proof (induction cs arbitrary: db)
  case Nil then show ?case by simp
next
  case (Cons c cs)
  show ?case unfolding upsert_calls.simps Cons.IH upsert_call_of_ids by auto
qed

lemma upsert_calls_ids_image:
  "tw_id ` set (tweets (upsert_calls dumps db cs)) = tw_id ` set (tweets db) \<union> c_id ` set cs"
  using upsert_calls_ids [of dumps db cs] by simp

lemma upsert_calls_distinct:
  "distinct (map tw_id (tweets db)) \<Longrightarrow> distinct (map tw_id (tweets (upsert_calls dumps db cs)))"
  by (induction cs arbitrary: db) (auto simp: upsert_call_of_distinct)

lemma upsert_calls_extends:
  "\<exists>ys. tweets (upsert_calls dumps db cs) = tweets db @ ys"
proof (induction cs arbitrary: db)
  case Nil then show ?case by simp
next
  case (Cons c cs)
  obtain ys where "tweets (upsert_calls dumps (fst (upsert_call_of dumps db c)) cs)
      = tweets (fst (upsert_call_of dumps db c)) @ ys"
    using Cons.IH by blast
  then show ?case by (auto simp: upsert_call_of_tweets)
qed

lemma upsert_returns_length: "length (upsert_returns dumps db cs) = length cs"
  by (induction cs arbitrary: db) auto

lemma upsert_returns_nth:
  "k < length cs \<Longrightarrow>
     upsert_returns dumps db cs ! k =
       (c_id (cs ! k) \<notin> set (map tw_id (tweets db)) \<union> set (map c_id (take k cs)))"
proof (induction cs arbitrary: db k)
  case Nil then show ?case by simp
next
  case (Cons c cs)
  show ?case
  proof (cases k)
    case 0
    then show ?thesis by (simp add: upsert_call_of_returns)
  next
    case (Suc j)
    with Cons.prems have "j < length cs" by simp
    from Cons.IH[OF this, of "fst (upsert_call_of dumps db c)"] Suc
    show ?thesis by (auto simp add: upsert_call_of_ids_image)
  qed
qed

lemma upsert_true_count:
  "length (filter (\<lambda>(c, b). c_id c = i \<and> b) (zip cs (upsert_returns dumps db cs))) =
     (if i \<in> set (map c_id cs) \<and> i \<notin> set (map tw_id (tweets db)) then 1 else 0)"
proof (induction cs arbitrary: db)
  case Nil then show ?case by simp
next
  case (Cons c cs)
  let ?db = "fst (upsert_call_of dumps db c)"
  have ih: "length (filter (\<lambda>(c, b). c_id c = i \<and> b) (zip cs (upsert_returns dumps ?db cs))) =
     (if i \<in> set (map c_id cs) \<and> i \<notin> insert (c_id c) (set (map tw_id (tweets db))) then 1 else 0)"
    using Cons.IH[of ?db] by (simp only: upsert_call_of_ids)
  have split: "\<And>P x xs. length (filter P (x # xs)) = (if P x then 1 else 0) + length (filter P xs)"
    by simp
  show ?case
    unfolding upsert_returns.simps zip_Cons_Cons split ih
    by (auto simp: upsert_call_of_returns)
qed


lemma upsert_calls_take_Suc:
  "k < length cs \<Longrightarrow>
     upsert_calls dumps db (take (Suc k) cs) =
       fst (upsert_call_of dumps (upsert_calls dumps db (take k cs)) (cs ! k))"
  by (simp add: take_Suc_conv_app_nth upsert_calls_append)

lemma upsert_returns_nth_call:
  "k < length cs \<Longrightarrow>
     upsert_returns dumps db cs ! k =
       snd (upsert_call_of dumps (upsert_calls dumps db (take k cs)) (cs ! k))"
  by (simp add: upsert_returns_nth upsert_call_of_returns upsert_calls_ids_image)

text \<open>
  Claim C1. Over any sequence of calls of \<open>upsert_tweet\<close>, started on a table with one
  row per id, the table has one row per id after every call; the \<open>k\<close>-th call returns
  \<open>True\<close> exactly when its id is neither in the table at the start nor among the ids
  of the earlier calls, so an id that is new to the table gets \<open>True\<close> exactly once, on
  its first call; a call that returns \<open>False\<close> leaves the store as it was, and the rows
  present after any call are still there, unchanged and in place, at the end.
\<close>

theorem upsert_tweet_one_row_per_id:
  assumes "distinct (map tw_id (tweets db))"
  shows "(\<forall>k\<le>length calls. distinct (map tw_id (tweets (upsert_calls dumps db (take k calls)))))
    \<and> (\<forall>k<length calls.
          upsert_returns dumps db calls ! k =
            snd (upsert_call_of dumps (upsert_calls dumps db (take k calls)) (calls ! k))
        \<and> upsert_returns dumps db calls ! k =
            (c_id (calls ! k) \<notin> set (map tw_id (tweets db)) \<union> set (map c_id (take k calls)))
        \<and> (\<not> upsert_returns dumps db calls ! k \<longrightarrow>
             upsert_calls dumps db (take (Suc k) calls) = upsert_calls dumps db (take k calls)))
    \<and> (\<forall>i\<in>set (map c_id calls). i \<notin> set (map tw_id (tweets db)) \<longrightarrow>
          length (filter (\<lambda>(c, b). c_id c = i \<and> b) (zip calls (upsert_returns dumps db calls))) = 1)
    \<and> (\<forall>k\<le>length calls. \<exists>ys.
          tweets (upsert_calls dumps db calls) = tweets (upsert_calls dumps db (take k calls)) @ ys)"
proof (intro conjI allI impI ballI)
  fix k assume "k \<le> length calls"
  show "distinct (map tw_id (tweets (upsert_calls dumps db (take k calls))))"
    using assms by (rule upsert_calls_distinct)
next
  fix k assume k: "k < length calls"
  show "upsert_returns dumps db calls ! k =
            snd (upsert_call_of dumps (upsert_calls dumps db (take k calls)) (calls ! k))"
    using k by (rule upsert_returns_nth_call)
  show "upsert_returns dumps db calls ! k =
            (c_id (calls ! k) \<notin> set (map tw_id (tweets db)) \<union> set (map c_id (take k calls)))"
    using k by (rule upsert_returns_nth)
  assume "\<not> upsert_returns dumps db calls ! k"
  then have "\<not> snd (upsert_call_of dumps (upsert_calls dumps db (take k calls)) (calls ! k))"
    using k by (simp add: upsert_returns_nth_call)
  then show "upsert_calls dumps db (take (Suc k) calls) = upsert_calls dumps db (take k calls)"
    using k by (simp add: upsert_calls_take_Suc upsert_call_of_unchanged del: upsert_calls.simps)
next
  fix i assume "i \<in> set (map c_id calls)" "i \<notin> set (map tw_id (tweets db))"
  then show "length (filter (\<lambda>(c, b). c_id c = i \<and> b) (zip calls (upsert_returns dumps db calls))) = 1"
    by (simp only: upsert_true_count if_True simp_thms)
next
  fix k assume "k \<le> length calls"
  have "upsert_calls dumps db calls =
          upsert_calls dumps (upsert_calls dumps db (take k calls)) (drop k calls)"
    by (simp only: upsert_calls_append [symmetric] append_take_drop_id)
  then show "\<exists>ys. tweets (upsert_calls dumps db calls) = tweets (upsert_calls dumps db (take k calls)) @ ys"
    using upsert_calls_extends [of dumps "upsert_calls dumps db (take k calls)" "drop k calls"] by simp
qed

theorem upsert_tweet_one_row_per_id_witness:
  "distinct (map tw_id (tweets empty_storage))
   \<and> upsert_returns sample_dumps empty_storage
        [sample_call ''t1'' ''T1'', sample_call ''t1'' ''T2'', sample_call ''t2'' ''T3''] ! 0
   \<and> \<not> upsert_returns sample_dumps empty_storage
        [sample_call ''t1'' ''T1'', sample_call ''t1'' ''T2'', sample_call ''t2'' ''T3''] ! 1
   \<and> upsert_calls sample_dumps empty_storage
        (take 2 [sample_call ''t1'' ''T1'', sample_call ''t1'' ''T2'', sample_call ''t2'' ''T3''])
      = upsert_calls sample_dumps empty_storage
        (take 1 [sample_call ''t1'' ''T1'', sample_call ''t1'' ''T2'', sample_call ''t2'' ''T3''])
   \<and> map tw_created_at (tweets (upsert_calls sample_dumps empty_storage
        [sample_call ''t1'' ''T1'', sample_call ''t1'' ''T2'', sample_call ''t2'' ''T3''])) = [''T1'', ''T3'']"
proof -
  let ?cs = "[sample_call ''t1'' ''T1'', sample_call ''t1'' ''T2'', sample_call ''t2'' ''T3'']"
  have d: "distinct (map tw_id (tweets empty_storage))"
    by (simp add: empty_storage_def)
  have r: "\<forall>k<length ?cs.
          upsert_returns sample_dumps empty_storage ?cs ! k =
            (c_id (?cs ! k) \<notin> set (map tw_id (tweets empty_storage)) \<union> set (map c_id (take k ?cs)))
        \<and> (\<not> upsert_returns sample_dumps empty_storage ?cs ! k \<longrightarrow>
             upsert_calls sample_dumps empty_storage (take (Suc k) ?cs) =
             upsert_calls sample_dumps empty_storage (take k ?cs))"
    using upsert_tweet_one_row_per_id [OF d, of ?cs sample_dumps] by blast
  have r0: "upsert_returns sample_dumps empty_storage ?cs ! 0"
    using r [rule_format, of 0] by (simp add: sample_call_def empty_storage_def)
  have r1: "\<not> upsert_returns sample_dumps empty_storage ?cs ! 1"
    using r [rule_format, of 1] by (simp add: sample_call_def empty_storage_def)
  have u: "upsert_calls sample_dumps empty_storage (take 2 ?cs) =
           upsert_calls sample_dumps empty_storage (take 1 ?cs)"
    using r [rule_format, of 1] r1 by (simp add: numeral_2_eq_2)
  have rows: "map tw_created_at (tweets (upsert_calls sample_dumps empty_storage ?cs)) = [''T1'', ''T3'']"
    by (simp add: sample_call_def empty_storage_def upsert_call_of_def upsert_tweet_def)
  show ?thesis using d r0 r1 u rows by blast
qed

section \<open>Ordering and pruning\<close>

lemma mset_insert_desc: "mset (insert_desc key x xs) = add_mset x (mset xs)"
  by (induction xs) auto

lemma order_by_desc_Cons: "order_by_desc key (x # xs) = insert_desc key x (order_by_desc key xs)"
  by (simp add: order_by_desc_def)

lemma mset_order_by_desc: "mset (order_by_desc key xs) = mset xs"
  by (induction xs) (simp_all add: order_by_desc_Cons mset_insert_desc, simp add: order_by_desc_def)

lemma set_order_by_desc: "set (order_by_desc key xs) = set xs"
  using mset_order_by_desc [of key xs] by (metis set_mset_mset)

lemma length_order_by_desc: "length (order_by_desc key xs) = length xs"
  using mset_order_by_desc [of key xs] by (metis size_mset)

lemma distinct_order_by_desc: "distinct (order_by_desc key xs) = distinct xs"
  using mset_order_by_desc [of key xs] by (metis mset_eq_imp_distinct_iff)

lemma set_insert_desc: "set (insert_desc key x xs) = insert x (set xs)"
  using mset_insert_desc [of key x xs] by (metis set_mset_mset set_mset_add_mset_insert)

lemma sorted_insert_desc:
  "sorted_wrt (\<lambda>a b. key b \<le> key a) xs \<Longrightarrow> sorted_wrt (\<lambda>a b. key b \<le> key a) (insert_desc key x xs)"
proof (induction xs)
  case Nil
  then show ?case by simp
next
  case (Cons y ys)
  show ?case
  proof (cases "key y \<le> key x")
    case True
    with Cons.prems show ?thesis by (auto intro: order_trans)
  next
    case False
    with Cons show ?thesis by (auto simp: set_insert_desc)
  qed
qed

lemma sorted_order_by_desc: "sorted_wrt (\<lambda>a b. key b \<le> key a) (order_by_desc key xs)"
  by (induction xs) (simp add: order_by_desc_def, simp add: order_by_desc_Cons sorted_insert_desc)

lemma sorted_wrt_take_drop:
  assumes "sorted_wrt R xs" "a \<in> set (take m xs)" "b \<in> set (drop m xs)"
  shows "R a b"
proof -
  have "sorted_wrt R (take m xs @ drop m xs)" using assms(1) by simp
  then show ?thesis using assms(2,3) unfolding sorted_wrt_append by blast
qed

lemma delete_older_other:
  "t' \<noteq> t \<Longrightarrow>
     filter (\<lambda>r. tw_target r = t') (delete_older dt n rows t) = filter (\<lambda>r. tw_target r = t') rows"
  unfolding delete_older_def filter_filter by (rule filter_cong) auto

lemma newest_ids_delete_older_other:
  "t' \<noteq> t \<Longrightarrow> newest_ids dt n t' (delete_older dt n rows t) = newest_ids dt n t' rows"
  by (simp add: newest_ids_def delete_older_other)

lemma foldl_delete_older:
  "distinct ts \<Longrightarrow>
     foldl (delete_older dt n) rows ts =
       filter (\<lambda>r. tw_target r \<in> set ts \<longrightarrow> tw_id r \<in> set (newest_ids dt n (tw_target r) rows)) rows"
proof (induction ts arbitrary: rows)
  case Nil
  then show ?case by simp
next
  case (Cons t ts)
  let ?rows = "delete_older dt n rows t"
  have "foldl (delete_older dt n) rows (t # ts) = foldl (delete_older dt n) ?rows ts" by simp
  also have "\<dots> = filter (\<lambda>r. tw_target r \<in> set ts \<longrightarrow> tw_id r \<in> set (newest_ids dt n (tw_target r) ?rows)) ?rows"
    using Cons by simp
  also have "\<dots> = filter (\<lambda>r. tw_target r \<in> set ts \<longrightarrow> tw_id r \<in> set (newest_ids dt n (tw_target r) rows)) ?rows"
  proof (rule filter_cong [OF refl])
    fix r
    show "(tw_target r \<in> set ts \<longrightarrow> tw_id r \<in> set (newest_ids dt n (tw_target r) ?rows)) =
          (tw_target r \<in> set ts \<longrightarrow> tw_id r \<in> set (newest_ids dt n (tw_target r) rows))"
    proof (cases "tw_target r \<in> set ts")
      case True
      with Cons.prems have "tw_target r \<noteq> t" by auto
      then have "newest_ids dt n (tw_target r) (delete_older dt n rows t) = newest_ids dt n (tw_target r) rows"
        by (rule newest_ids_delete_older_other)
      then show ?thesis by simp
    next
      case False
      then show ?thesis by simp
    qed
  qed
  also have "\<dots> = filter (\<lambda>r. tw_target r \<in> set (t # ts) \<longrightarrow> tw_id r \<in> set (newest_ids dt n (tw_target r) rows)) rows"
    unfolding delete_older_def filter_filter by (rule filter_cong) auto
  finally show ?case .
qed

lemma prune_old_entries_tweets:
  "tweets (prune_old_entries dt db n) =
     filter (\<lambda>r. tw_id r \<in> set (newest_ids dt n (tw_target r) (tweets db))) (tweets db)"
proof -
  have "tweets (prune_old_entries dt db n) =
      filter (\<lambda>r. tw_target r \<in> set (remdups (map tw_target (tweets db))) \<longrightarrow>
                  tw_id r \<in> set (newest_ids dt n (tw_target r) (tweets db))) (tweets db)"
    by (simp add: prune_old_entries_def foldl_delete_older)
  also have "\<dots> = filter (\<lambda>r. tw_id r \<in> set (newest_ids dt n (tw_target r) (tweets db))) (tweets db)"
    by (rule filter_cong) auto
  finally show ?thesis .
qed

lemma prune_old_entries_target:
  "filter (\<lambda>r. tw_target r = t) (tweets (prune_old_entries dt db n)) =
     filter (\<lambda>r. tw_target r = t) (delete_older dt n (tweets db) t)"
  unfolding prune_old_entries_tweets delete_older_def filter_filter
  by (rule filter_cong) auto

lemma delete_older_frame:
  "filter (\<lambda>r. tw_target r \<noteq> t) (delete_older dt n rows t) = filter (\<lambda>r. tw_target r \<noteq> t) rows"
  unfolding delete_older_def filter_filter by (rule filter_cong) auto

lemma kept_rows:
  assumes d: "distinct (map tw_id xs)" and m: "mset L = mset xs"
  shows "filter (\<lambda>r. tw_id r \<in> tw_id ` set (take m L)) xs = filter (\<lambda>r. r \<in> set (take m L)) xs"
proof (rule filter_cong [OF refl])
  fix r assume r: "r \<in> set xs"
  have inj: "inj_on tw_id (set xs)" using d by (simp add: distinct_map)
  have sub: "set (take m L) \<subseteq> set xs"
    using m by (metis set_mset_mset set_take_subset)
  show "(tw_id r \<in> tw_id ` set (take m L)) = (r \<in> set (take m L))"
    using r inj sub by (auto dest: inj_onD)
qed

lemma kept_count:
  assumes d: "distinct (map tw_id xs)" and m: "mset L = mset xs"
  shows "length (filter (\<lambda>r. tw_id r \<in> tw_id ` set (take m L)) xs) = min m (length xs)"
proof -
  have dx: "distinct xs" using d by (simp add: distinct_map)
  have dl: "distinct L" using m dx by (metis mset_eq_imp_distinct_iff)
  have sub: "set (take m L) \<subseteq> set xs"
    using m by (metis set_mset_mset set_take_subset)
  have "length (filter (\<lambda>r. r \<in> set (take m L)) xs) = card ({r. r \<in> set (take m L)} \<inter> set xs)"
    using dx by (rule distinct_length_filter)
  also have "{r. r \<in> set (take m L)} \<inter> set xs = set (take m L)" using sub by auto
  also have "card (set (take m L)) = length (take m L)"
    using dl by (simp add: distinct_card)
  also have "\<dots> = min m (length xs)"
    using m by (metis length_take min.commute size_mset)
  finally show ?thesis by (simp only: kept_rows [OF d m])
qed


lemma kept_member:
  assumes d: "distinct (map tw_id xs)" and m: "mset L = mset xs" and r: "r \<in> set xs"
  shows "(tw_id r \<in> tw_id ` set (take m L)) = (r \<in> set (take m L))"
proof -
  have inj: "inj_on tw_id (set xs)" using d by (simp add: distinct_map)
  have sub: "set (take m L) \<subseteq> set xs"
    using m by (metis set_mset_mset set_take_subset)
  show ?thesis using r inj sub by (auto dest: inj_onD)
qed

lemma newest_ids_nonneg:
  "0 \<le> n \<Longrightarrow>
     set (newest_ids dt n t rows) =
       tw_id ` set (take (nat n) (order_by_desc (\<lambda>r. dt (tw_created_at r)) (filter (\<lambda>r. tw_target r = t) rows)))"
  by (simp add: newest_ids_def sql_limit_def)

lemma prune_target_rows:
  "filter (\<lambda>r. tw_target r = t) (tweets (prune_old_entries dt db n)) =
     filter (\<lambda>r. tw_id r \<in> set (newest_ids dt n t (tweets db))) (filter (\<lambda>r. tw_target r = t) (tweets db))"
  unfolding prune_old_entries_tweets filter_filter by (rule filter_cong) auto

lemma prune_count:
  assumes d: "distinct (map tw_id (tweets db))" and n: "0 \<le> n"
  shows "length (filter (\<lambda>r. tw_target r = t) (tweets (prune_old_entries dt db n))) =
           min (nat n) (length (filter (\<lambda>r. tw_target r = t) (tweets db)))"
proof -
  let ?xs = "filter (\<lambda>r. tw_target r = t) (tweets db)"
  let ?L = "order_by_desc (\<lambda>r. dt (tw_created_at r)) ?xs"
  have dx: "distinct (map tw_id ?xs)" using d by (rule distinct_map_filter)
  have m: "mset ?L = mset ?xs" by (rule mset_order_by_desc)
  show ?thesis
    unfolding prune_target_rows newest_ids_nonneg [OF n]
    by (rule kept_count [OF dx m])
qed

lemma prune_order:
  assumes d: "distinct (map tw_id (tweets db))" and n: "0 \<le> n"
    and r: "r \<in> set (tweets db)" "r \<notin> set (tweets (prune_old_entries dt db n))"
    and s: "s \<in> set (tweets (prune_old_entries dt db n))"
    and t: "tw_target r = tw_target s"
  shows "dt (tw_created_at r) \<le> dt (tw_created_at s)"
proof -
  let ?t = "tw_target s"
  let ?xs = "filter (\<lambda>r. tw_target r = ?t) (tweets db)"
  let ?L = "order_by_desc (\<lambda>r. dt (tw_created_at r)) ?xs"
  have dx: "distinct (map tw_id ?xs)" using d by (rule distinct_map_filter)
  have m: "mset ?L = mset ?xs" by (rule mset_order_by_desc)
  have rx: "r \<in> set ?xs" using r(1) t by simp
  have s_in: "s \<in> set (tweets db)" "tw_id s \<in> set (newest_ids dt n ?t (tweets db))"
    using s by (simp_all add: prune_old_entries_tweets)
  have sx: "s \<in> set ?xs" using s_in(1) by simp
  have s_take: "s \<in> set (take (nat n) ?L)"
    using s_in(2) kept_member [OF dx m sx, of "nat n"] unfolding newest_ids_nonneg [OF n] by blast
  have "tw_id r \<notin> set (newest_ids dt n ?t (tweets db))"
    using r t by (simp add: prune_old_entries_tweets)
  then have "r \<notin> set (take (nat n) ?L)"
    using kept_member [OF dx m rx, of "nat n"] unfolding newest_ids_nonneg [OF n] by blast
  moreover have "r \<in> set ?L" using rx by (simp only: set_order_by_desc)
  ultimately have r_drop: "r \<in> set (drop (nat n) ?L)"
    by (metis Un_iff append_take_drop_id set_append)
  show ?thesis
    using sorted_wrt_take_drop [OF sorted_order_by_desc s_take r_drop] .
qed

lemma prune_sublist:
  "tweets (prune_old_entries dt db n) =
     filter (\<lambda>r. r \<in> set (tweets (prune_old_entries dt db n))) (tweets db)"
  unfolding prune_old_entries_tweets by (rule filter_cong) auto

text \<open>
  What \<open>prune_old_entries\<close> does for every reading \<open>dt\<close> of \<open>datetime()\<close>. On a table with
  one row per id and for a limit \<open>n \<ge> 0\<close>, every target keeps exactly \<open>min n\<close> (its number of
  rows) rows; no deleted row of a target has a larger \<open>datetime(created_at)\<close> than a surviving
  row of the same target; the survivors are rows of the table, unchanged and in their
  order; and the rows a target keeps are those its own \<open>DELETE\<close> leaves, which touches the
  rows of no other target. Which rows survive among those with equal
  \<open>datetime(created_at)\<close> is not said here.
\<close>

theorem prune_old_entries_keeps_newest:
  assumes "distinct (map tw_id (tweets db))" and "0 \<le> n"
  shows "(\<forall>t. length (filter (\<lambda>r. tw_target r = t) (tweets (prune_old_entries dt db n))) =
              min (nat n) (length (filter (\<lambda>r. tw_target r = t) (tweets db))))
    \<and> (\<forall>r\<in>set (tweets db). \<forall>s\<in>set (tweets (prune_old_entries dt db n)).
          r \<notin> set (tweets (prune_old_entries dt db n)) \<and> tw_target r = tw_target s \<longrightarrow>
          dt (tw_created_at r) \<le> dt (tw_created_at s))
    \<and> tweets (prune_old_entries dt db n) =
         filter (\<lambda>r. r \<in> set (tweets (prune_old_entries dt db n))) (tweets db)
    \<and> (\<forall>t. filter (\<lambda>r. tw_target r = t) (tweets (prune_old_entries dt db n)) =
              filter (\<lambda>r. tw_target r = t) (delete_older dt n (tweets db) t))
    \<and> (\<forall>t. filter (\<lambda>r. tw_target r \<noteq> t) (delete_older dt n (tweets db) t) =
              filter (\<lambda>r. tw_target r \<noteq> t) (tweets db))"
proof (intro conjI allI ballI impI)
  fix t
  show "length (filter (\<lambda>r. tw_target r = t) (tweets (prune_old_entries dt db n))) =
              min (nat n) (length (filter (\<lambda>r. tw_target r = t) (tweets db)))"
    using assms by (rule prune_count)
  show "filter (\<lambda>r. tw_target r = t) (tweets (prune_old_entries dt db n)) =
              filter (\<lambda>r. tw_target r = t) (delete_older dt n (tweets db) t)"
    by (rule prune_old_entries_target)
  show "filter (\<lambda>r. tw_target r \<noteq> t) (delete_older dt n (tweets db) t) =
              filter (\<lambda>r. tw_target r \<noteq> t) (tweets db)"
    by (rule delete_older_frame)
next
  fix r s
  assume "r \<in> set (tweets db)" "s \<in> set (tweets (prune_old_entries dt db n))"
    "r \<notin> set (tweets (prune_old_entries dt db n)) \<and> tw_target r = tw_target s"
  then show "dt (tw_created_at r) \<le> dt (tw_created_at s)"
    using prune_order [OF assms, of r dt s] by blast
next
  show "tweets (prune_old_entries dt db n) =
         filter (\<lambda>r. r \<in> set (tweets (prune_old_entries dt db n))) (tweets db)"
    by (rule prune_sublist)
qed

lemma sample_prune:
  "map tw_id (tweets (prune_old_entries (\<lambda>s. s) sample_storage 2)) = [''t2'', ''b1'', ''t3'']"
  by (simp add: prune_old_entries_def delete_older_def newest_ids_def sql_limit_def
      order_by_desc_def sample_storage_def sample_row_def)

theorem prune_old_entries_keeps_newest_witness:
  "distinct (map tw_id (tweets sample_storage)) \<and> (0::int) \<le> 2
   \<and> length (filter (\<lambda>r. tw_target r = ''user:alice'') (tweets (prune_old_entries (\<lambda>s. s) sample_storage 2))) = 2
   \<and> length (filter (\<lambda>r. tw_target r = ''hashtag:news'') (tweets (prune_old_entries (\<lambda>s. s) sample_storage 2))) = 1
   \<and> map tw_id (tweets (prune_old_entries (\<lambda>s. s) sample_storage 2)) = [''t2'', ''b1'', ''t3'']"
proof -
  have d: "distinct (map tw_id (tweets sample_storage))"
    by (simp add: sample_storage_def sample_row_def)
  have n: "(0::int) \<le> 2" by simp
  have c: "\<forall>t. length (filter (\<lambda>r. tw_target r = t) (tweets (prune_old_entries (\<lambda>s. s) sample_storage 2))) =
              min (nat 2) (length (filter (\<lambda>r. tw_target r = t) (tweets sample_storage)))"
    using prune_old_entries_keeps_newest [OF d n, of "\<lambda>s. s"] by blast
  have a: "length (filter (\<lambda>r. tw_target r = ''user:alice'') (tweets (prune_old_entries (\<lambda>s. s) sample_storage 2))) = 2"
    using c [rule_format, of "''user:alice''"] by (simp add: sample_storage_def sample_row_def)
  have b: "length (filter (\<lambda>r. tw_target r = ''hashtag:news'') (tweets (prune_old_entries (\<lambda>s. s) sample_storage 2))) = 1"
    using c [rule_format, of "''hashtag:news''"] by (simp add: sample_storage_def sample_row_def)
  show ?thesis using d n a b sample_prune by blast
qed

lemma order_by_desc_ties:
  "\<forall>x\<in>set xs. key x = k \<Longrightarrow> order_by_desc key xs = xs"
proof (induction xs)
  case Nil
  then show ?case by (simp add: order_by_desc_def)
next
  case (Cons x xs)
  then have "order_by_desc key xs = xs" by simp
  then show ?case using Cons.prems by (cases xs) (simp_all add: order_by_desc_Cons)
qed

lemma filter_in_take:
  assumes "distinct xs"
  shows "filter (\<lambda>r. r \<in> set (take m xs)) xs = take m xs"
proof -
  have d: "set (take m xs) \<inter> set (drop m xs) = {}"
    using assms by (rule set_take_disj_set_drop_if_distinct) simp
  have "filter (\<lambda>r. r \<in> set (take m xs)) (take m xs @ drop m xs) = take m xs"
    unfolding filter_append using d by (auto simp: filter_empty_conv)
  then show ?thesis by simp
qed

text \<open>
  Claim C7 on the code. The rows are ordered by \<open>datetime(created_at)\<close>, not by \<open>created_at\<close>.
  When \<open>datetime()\<close> gives the same result \<open>k\<close> for every row of a target (NULL for every row,
  when no \<open>created_at\<close> of the target is in a form that \<open>datetime()\<close> reads, as with the RFC 822
  dates that \<open>_store_entries\<close> takes from a feed's \<open>published\<close>), then on a table with one row per
  id and for a limit \<open>n \<ge> 0\<close> the rows that \<open>prune_old_entries\<close> keeps for the target are the
  \<open>n\<close> rows that were inserted first, whatever their \<open>created_at\<close>: of three posts inserted
  in the order of their dates, a limit of 2 keeps the two oldest and deletes the newest.
\<close>

theorem prune_keeps_first_inserted_when_keys_tie:
  assumes d: "distinct (map tw_id (tweets db))" and n: "0 \<le> n"
    and k: "\<forall>r\<in>set (tweets db). tw_target r = t \<longrightarrow> dt (tw_created_at r) = k"
  shows "filter (\<lambda>r. tw_target r = t) (tweets (prune_old_entries dt db n)) =
           take (nat n) (filter (\<lambda>r. tw_target r = t) (tweets db))"
proof -
  let ?xs = "filter (\<lambda>r. tw_target r = t) (tweets db)"
  have dx: "distinct (map tw_id ?xs)" using d by (rule distinct_map_filter)
  then have dxs: "distinct ?xs" by (simp add: distinct_map)
  have o: "order_by_desc (\<lambda>r. dt (tw_created_at r)) ?xs = ?xs"
    using k by (intro order_by_desc_ties [where k = k]) simp
  have "filter (\<lambda>r. tw_target r = t) (tweets (prune_old_entries dt db n)) =
        filter (\<lambda>r. tw_id r \<in> tw_id ` set (take (nat n) ?xs)) ?xs"
    unfolding prune_target_rows newest_ids_nonneg [OF n] o ..
  also have "\<dots> = filter (\<lambda>r. r \<in> set (take (nat n) ?xs)) ?xs"
    by (rule kept_rows [OF dx refl])
  also have "\<dots> = take (nat n) ?xs" using dxs by (rule filter_in_take)
  finally show ?thesis .
qed

theorem prune_keeps_first_inserted_when_keys_tie_witness:
  "distinct (map tw_id (tweets sample_feed_storage)) \<and> (0::int) \<le> 2
   \<and> map (\<lambda>r. sample_datetime (tw_created_at r)) (tweets sample_feed_storage) = [None, None, None]
   \<and> map tw_id (filter (\<lambda>r. tw_target r = ''user:alice'')
        (tweets (prune_old_entries sample_datetime sample_feed_storage 2))) = [''r1'', ''r2'']
   \<and> map tw_created_at (filter (\<lambda>r. tw_target r = ''user:alice'')
        (tweets (prune_old_entries sample_datetime sample_feed_storage 2))) =
        [''Mon, 01 Jan 2024 10:00:00 GMT'', ''Tue, 02 Jan 2024 10:00:00 GMT'']"
proof -
  have d: "distinct (map tw_id (tweets sample_feed_storage))"
    by (simp add: sample_feed_storage_def sample_row_def)
  have n: "(0::int) \<le> 2" by simp
  have k: "map (\<lambda>r. sample_datetime (tw_created_at r)) (tweets sample_feed_storage) = [None, None, None]"
    by (simp add: sample_feed_storage_def sample_row_def sample_datetime_def is_digit_def)
  have h: "\<forall>r\<in>set (tweets sample_feed_storage).
      tw_target r = ''user:alice'' \<longrightarrow> sample_datetime (tw_created_at r) = None"
    by (simp add: sample_feed_storage_def sample_row_def sample_datetime_def is_digit_def)
  have f: "filter (\<lambda>r. tw_target r = ''user:alice'') (tweets (prune_old_entries sample_datetime sample_feed_storage 2)) =
           take (nat 2) (filter (\<lambda>r. tw_target r = ''user:alice'') (tweets sample_feed_storage))"
    by (rule prune_keeps_first_inserted_when_keys_tie [OF d n h])
  have t: "take (nat 2) (filter (\<lambda>r. tw_target r = ''user:alice'') (tweets sample_feed_storage)) =
      [sample_row ''r1'' ''user:alice'' ''Mon, 01 Jan 2024 10:00:00 GMT'',
       sample_row ''r2'' ''user:alice'' ''Tue, 02 Jan 2024 10:00:00 GMT'']"
    by (simp add: sample_feed_storage_def sample_row_def numeral_2_eq_2)
  have i: "map tw_id (filter (\<lambda>r. tw_target r = ''user:alice'')
        (tweets (prune_old_entries sample_datetime sample_feed_storage 2))) = [''r1'', ''r2'']"
    unfolding f t by (simp add: sample_row_def)
  have c: "map tw_created_at (filter (\<lambda>r. tw_target r = ''user:alice'')
        (tweets (prune_old_entries sample_datetime sample_feed_storage 2))) =
        [''Mon, 01 Jan 2024 10:00:00 GMT'', ''Tue, 02 Jan 2024 10:00:00 GMT'']"
    unfolding f t by (simp add: sample_row_def)
  show ?thesis using d n k i c by (intro conjI)
qed

section \<open>Backoff after consecutive failures\<close>

lemma release_errors_snoc:
  "release_errors base (fs @ [f]) s = release_instance_on_error base (fst f) (snd f) (release_errors base fs s)"
  by (simp add: release_errors_def)

lemma release_errors_count:
  "consecutive_errors (release_errors base fs s) = consecutive_errors s + length fs"
  by (induction fs rule: rev_induct)
     (simp_all add: release_errors_snoc release_instance_on_error_def Let_def, simp add: release_errors_def)

lemma release_errors_last:
  assumes "fs \<noteq> []"
  shows "backoff_until (release_errors base fs s) =
           fst (last fs) + real_of_int (min 600 (base * 2 ^ (consecutive_errors s + length fs - 1)))"
    and "last_error (release_errors base fs s) = Some (error_text (snd (last fs)))"
proof -
  obtain gs f where fs: "fs = gs @ [f]" using assms by (metis rev_exhaust)
  show "backoff_until (release_errors base fs s) =
           fst (last fs) + real_of_int (min 600 (base * 2 ^ (consecutive_errors s + length fs - 1)))"
    unfolding fs release_errors_snoc
    by (simp add: release_instance_on_error_def Let_def release_errors_count)
  show "last_error (release_errors base fs s) = Some (error_text (snd (last fs)))"
    unfolding fs release_errors_snoc
    by (simp add: release_instance_on_error_def Let_def)
qed

lemma client_init_base:
  "client_init created instances max_rpm base = Inr c \<Longrightarrow> backoff_base_seconds c = max 1 base"
  by (auto simp: client_init_def split: if_splits)

text \<open>
  Claim C2. For a client built with a configured \<open>backoff_base_seconds\<close> of at least 1
  and an instance with no consecutive errors, after \<open>K \<ge> 1\<close> releases on failure
  (\<open>fs\<close>, each with its clock reading and its status code, none a success) the
  instance's \<open>backoff_until\<close> minus the clock reading of the last release is
  \<open>min 600 (base * 2 ^ (K - 1))\<close>, its error counter is \<open>K\<close>, and \<open>last_error\<close> is
  \<open>HTTP <code>\<close> when the last release was given an HTTP status code (a code other than
  0) and the marker \<open>Request-Fehler\<close> when it was given none.
\<close>

theorem backoff_after_consecutive_failures:
  assumes "client_init created instances max_rpm configured_base = Inr c"
    and "1 \<le> configured_base"
    and "consecutive_errors s = 0"
    and "fs \<noteq> []"
    and "snd (last fs) \<noteq> Some 0"
  shows "backoff_until (release_errors (backoff_base_seconds c) fs s) - fst (last fs) =
           real_of_int (min 600 (configured_base * 2 ^ (length fs - 1)))
    \<and> consecutive_errors (release_errors (backoff_base_seconds c) fs s) = length fs
    \<and> last_error (release_errors (backoff_base_seconds c) fs s) =
        Some (case snd (last fs) of None \<Rightarrow> ''Request-Fehler'' | Some code \<Rightarrow> ''HTTP '' @ str_int code)"
proof -
  have b: "backoff_base_seconds c = configured_base"
    using client_init_base [OF assms(1)] assms(2) by simp
  have e: "error_text (snd (last fs)) =
      (case snd (last fs) of None \<Rightarrow> ''Request-Fehler'' | Some code \<Rightarrow> ''HTTP '' @ str_int code)"
    using assms(5) by (simp add: error_text_def split: option.splits)
  show ?thesis
    using release_errors_last [OF assms(4), of "backoff_base_seconds c" s] assms(3)
    by (simp add: release_errors_count b e)
qed

lemma sample_client_init:
  "client_init (\<lambda>k. 0) [''https://a'', ''https://b/''] 2 2 = Inr sample_client"
  by (simp add: client_init_def sample_client_def upt_rec)

lemma str_int_503: "str_int 503 = ''503''"
  by (simp add: str_int_def str_nat.simps)

theorem backoff_after_consecutive_failures_witness:
  "client_init (\<lambda>k. 0) [''https://a'', ''https://b/''] 2 2 = Inr sample_client
   \<and> (1::int) \<le> 2
   \<and> consecutive_errors (new_state ''https://a'' 2 0) = 0
   \<and> [(10, Some 503), (20, Some (503::int))] \<noteq> []
   \<and> snd (last [(10::real, Some 503), (20, Some (503::int))]) \<noteq> Some 0
   \<and> backoff_until (release_errors (backoff_base_seconds sample_client) [(10, Some 503)]
        (new_state ''https://a'' 2 0)) = 12
   \<and> backoff_until (release_errors (backoff_base_seconds sample_client) [(10, Some 503), (20, Some 503)]
        (new_state ''https://a'' 2 0)) = 24
   \<and> last_error (release_errors (backoff_base_seconds sample_client) [(10, Some 503), (20, Some 503)]
        (new_state ''https://a'' 2 0)) = Some ''HTTP 503''"
proof -
  have i: "client_init (\<lambda>k. 0) [''https://a'', ''https://b/''] 2 2 = Inr sample_client"
    by (rule sample_client_init)
  have z: "consecutive_errors (new_state ''https://a'' 2 0) = 0"
    by (simp add: new_state_def)
  have one: "backoff_until (release_errors (backoff_base_seconds sample_client) [(10, Some 503)]
        (new_state ''https://a'' 2 0)) = 12"
    using backoff_after_consecutive_failures [OF i _ z, of "[(10, Some 503)]"] by simp
  have two: "backoff_until (release_errors (backoff_base_seconds sample_client) [(10, Some 503), (20, Some 503)]
        (new_state ''https://a'' 2 0)) = 24
     \<and> last_error (release_errors (backoff_base_seconds sample_client) [(10, Some 503), (20, Some 503)]
        (new_state ''https://a'' 2 0)) = Some ''HTTP 503''"
    using backoff_after_consecutive_failures [OF i _ z, of "[(10, Some 503), (20, Some 503)]"]
    by (simp add: str_int_503)
  show ?thesis using i z one two by simp
qed

section \<open>Bounds on tokens and backoff\<close>

lemma refill_tokens_ok:
  "0 \<le> max_rpm \<Longrightarrow> state_ok max_rpm s \<Longrightarrow> state_ok max_rpm (refill_tokens max_rpm now s)"
  by (auto simp: state_ok_def refill_tokens_def Let_def)

lemma release_success_ok:
  "0 \<le> max_rpm \<Longrightarrow> state_ok max_rpm s \<Longrightarrow> state_ok max_rpm (release_instance_on_success rtt s)"
  by (simp add: state_ok_def release_instance_on_success_def)

lemma penalty_pos: "1 \<le> base \<Longrightarrow> (0::int) \<le> min 600 (base * 2 ^ k)"
  by simp

lemma release_error_ok:
  assumes "1 \<le> base" "0 \<le> now" "state_ok max_rpm s"
  shows "state_ok max_rpm (release_instance_on_error base now code s)"
proof -
  have "(0::int) \<le> min 600 (base * 2 ^ consecutive_errors s)"
    using assms(1) by (rule penalty_pos)
  then have "(0::real) \<le> real_of_int (min 600 (base * 2 ^ consecutive_errors s))"
    by (simp only: of_int_0_le_iff)
  then show ?thesis
    using assms(2,3) by (simp add: state_ok_def release_instance_on_error_def Let_def)
qed

lemma take_token_ok:
  "state_ok max_rpm s \<Longrightarrow> \<not> tokens s < 1 \<Longrightarrow> state_ok max_rpm (s\<lparr>tokens := tokens s - 1\<rparr>)"
  by (simp add: state_ok_def)

lemma list_all_update:
  "list_all P xs \<Longrightarrow> P v \<Longrightarrow> list_all P (xs[i := v])"
  unfolding list_all_iff using set_update_subset_insert [of xs i v] by auto

lemma list_all_nth: "list_all P xs \<Longrightarrow> i < length xs \<Longrightarrow> P (xs ! i)"
  by (simp add: list_all_length)

lemma on_state_inv:
  assumes "pool_inv c"
    and "\<And>s. state_ok (max_requests_per_minute c) s \<Longrightarrow> state_ok (max_requests_per_minute c) (f s)"
  shows "pool_inv (on_state i f c)"
proof (cases "i < length (states c)")
  case True
  have "state_ok (max_requests_per_minute c) (f (states c ! i))"
    using assms True by (simp add: pool_inv_def list_all_nth)
  then show ?thesis
    using assms(1) by (simp add: pool_inv_def on_state_def list_all_update)
next
  case False
  then have "(states c)[i := f (states c ! i)] = states c" by (simp add: list_update_beyond)
  then show ?thesis using assms(1) by (simp add: pool_inv_def on_state_def)
qed

lemma acquire_loop_inv:
  "pool_inv c \<Longrightarrow>
     \<exists>r c'. acquire_loop n k clk c = Inr (r, c') \<and> pool_inv c' \<and>
       max_requests_per_minute c' = max_requests_per_minute c \<and>
       backoff_base_seconds c' = backoff_base_seconds c \<and>
       length (states c') = length (states c)"
proof (induction n arbitrary: k c)
  case 0
  then show ?case by simp
next
  case (Suc n)
  let ?i = "rotation_index c"
  let ?m = "max_requests_per_minute c"
  let ?s = "refill_tokens ?m (clk (2 * k)) (states c ! ?i)"
  let ?c1 = "c\<lparr>rotation_index := (?i + 1) mod length (states c)\<rparr>"
  from Suc.prems have i: "?i < length (states c)" and m: "0 \<le> ?m"
    and all: "list_all (state_ok ?m) (states c)" and b: "1 \<le> backoff_base_seconds c"
    by (simp_all add: pool_inv_def)
  have s: "state_ok ?m ?s"
    using m all i by (simp add: refill_tokens_ok list_all_nth)
  have "0 < length (states c)" using i by linarith
  then have r: "(?i + 1) mod length (states c) < length (states c)"
    by (rule mod_less_divisor)
  have skip: "pool_inv (?c1\<lparr>states := (states c)[?i := ?s]\<rparr>)"
    using r m b all s by (simp add: pool_inv_def list_all_update)
  show ?case
  proof (cases "clk (2 * k + 1) < backoff_until ?s \<or> tokens ?s < 1")
    case True
    obtain r c' where "acquire_loop n (k + 1) clk (?c1\<lparr>states := (states c)[?i := ?s]\<rparr>) = Inr (r, c')"
      "pool_inv c'" "max_requests_per_minute c' = ?m" "backoff_base_seconds c' = backoff_base_seconds c"
      "length (states c') = length (states c)"
      using Suc.IH [OF skip, of "k + 1"] by auto
    then show ?thesis using True i by (auto simp: Let_def)
  next
    case False
    have "pool_inv (?c1\<lparr>states := (states c)[?i := ?s\<lparr>tokens := tokens ?s - 1\<rparr>]\<rparr>)"
      using r m b all False s by (simp add: pool_inv_def list_all_update take_token_ok)
    then show ?thesis using False i by (simp add: Let_def)
  qed
qed

lemma pool_step_inv:
  assumes "pool_inv c" "op_clock_ok x"
  shows "\<exists>c'. pool_step c x = Some c' \<and> pool_inv c' \<and>
           max_requests_per_minute c' = max_requests_per_minute c"
proof (cases x)
  case (Refill i now)
  have "pool_inv (on_state i (refill_tokens (max_requests_per_minute c) now) c)"
    using assms(1) by (rule on_state_inv) (use assms(1) in \<open>simp add: refill_tokens_ok pool_inv_def\<close>)
  then show ?thesis using Refill by (simp add: on_state_def)
next
  case (Acquire clk)
  obtain r c' where "acquire_instance clk c = Inr (r, c')" "pool_inv c'"
    "max_requests_per_minute c' = max_requests_per_minute c"
    using acquire_loop_inv [OF assms(1), of "length (states c)" 0 clk]
    by (auto simp: acquire_instance_def)
  then show ?thesis using Acquire by simp
next
  case (ReleaseSuccess i rtt)
  have "pool_inv (on_state i (release_instance_on_success rtt) c)"
    using assms(1) by (rule on_state_inv) (use assms(1) in \<open>simp add: release_success_ok pool_inv_def\<close>)
  then show ?thesis using ReleaseSuccess by (simp add: on_state_def)
next
  case (ReleaseError i code now)
  have "pool_inv (on_state i (release_instance_on_error (backoff_base_seconds c) now code) c)"
    using assms(1)
    by (rule on_state_inv) (use assms ReleaseError in \<open>simp add: release_error_ok pool_inv_def\<close>)
  then show ?thesis using ReleaseError by (simp add: on_state_def)
qed

lemma pool_run_inv:
  "pool_inv c \<Longrightarrow> list_all op_clock_ok xs \<Longrightarrow>
     \<exists>c'. pool_run c xs = Some c' \<and> pool_inv c' \<and>
       max_requests_per_minute c' = max_requests_per_minute c"
proof (induction xs arbitrary: c)
  case Nil
  then show ?case by simp
next
  case (Cons x xs)
  obtain c1 where c1: "pool_step c x = Some c1" "pool_inv c1"
    "max_requests_per_minute c1 = max_requests_per_minute c"
    using pool_step_inv [of c x] Cons.prems by auto
  obtain c' where "pool_run c1 xs = Some c'" "pool_inv c'"
    "max_requests_per_minute c' = max_requests_per_minute c1"
    using Cons.IH [OF c1(2)] Cons.prems(2) by auto
  then show ?case using c1 by simp
qed

lemma client_init_inv:
  assumes "0 \<le> max_rpm" "client_init created instances max_rpm base = Inr c"
  shows "pool_inv c \<and> max_requests_per_minute c = max_rpm"
proof -
  have ne: "instances \<noteq> []" using assms(2) by (auto simp: client_init_def split: if_splits)
  have c: "c = \<lparr>backoff_base_seconds = max 1 base,
                states = map (\<lambda>k. new_state (instances ! k) max_rpm (created k)) [0..<length instances],
                max_requests_per_minute = max_rpm, rotation_index = 0\<rparr>"
    using assms(2) ne by (simp add: client_init_def)
  show ?thesis
    using ne assms(1) unfolding c
    by (simp add: pool_inv_def list_all_iff state_ok_def new_state_def)
qed

text \<open>
  Claim C8. With \<open>max_requests_per_instance_per_minute \<ge> 0\<close> and a clock that is not
  negative when a failure is released: construction yields a client whose every
  instance has \<open>0 \<le> tokens \<le> max_rpm\<close> and \<open>backoff_until \<ge> 0\<close>, and from any such
  client every run of refills, acquisitions, releases on success and releases on failure
  raises no exception and keeps those bounds after each operation.
\<close>

theorem pool_tokens_and_backoff_in_range:
  assumes "0 \<le> max_rpm" and "list_all op_clock_ok xs"
  shows "(\<forall>c. client_init created instances max_rpm base = Inr c \<longrightarrow>
            pool_inv c \<and> max_requests_per_minute c = max_rpm)
    \<and> (\<forall>c k. pool_inv c \<and> max_requests_per_minute c = max_rpm \<and> k \<le> length xs \<longrightarrow>
          (\<exists>c'. pool_run c (take k xs) = Some c' \<and> pool_inv c' \<and>
                 list_all (state_ok max_rpm) (states c')))"
proof -
  have built: "pool_inv c \<and> max_requests_per_minute c = max_rpm"
    if "client_init created instances max_rpm base = Inr c" for c
    using assms(1) that by (rule client_init_inv)
  have kept: "\<exists>c'. pool_run c (take k xs) = Some c' \<and> pool_inv c' \<and> list_all (state_ok max_rpm) (states c')"
    if a: "pool_inv c \<and> max_requests_per_minute c = max_rpm \<and> k \<le> length xs" for c k
  proof -
    have "list_all op_clock_ok (take k xs)"
      using assms(2) unfolding list_all_iff by (auto dest: in_set_takeD)
    then obtain c' where "pool_run c (take k xs) = Some c'" "pool_inv c'"
      "max_requests_per_minute c' = max_requests_per_minute c"
      using pool_run_inv [of c "take k xs"] a by auto
    then show ?thesis using a by (auto simp: pool_inv_def)
  qed
  show ?thesis using built kept by blast
qed

theorem pool_tokens_and_backoff_in_range_witness:
  "(0::int) \<le> 2 \<and> list_all op_clock_ok sample_ops
   \<and> pool_inv sample_client
   \<and> (\<exists>c'. pool_run sample_client (take 5 sample_ops) = Some c' \<and> pool_inv c' \<and>
             list_all (state_ok 2) (states c'))"
proof -
  have z: "(0::int) \<le> 2" by simp
  have k: "list_all op_clock_ok sample_ops" by (simp add: sample_ops_def)
  note t = pool_tokens_and_backoff_in_range [OF z k, of "\<lambda>k. 0" "[''https://a'', ''https://b/'']" 2]
  have i: "pool_inv sample_client \<and> max_requests_per_minute sample_client = 2"
    using t sample_client_init by blast
  have l: "5 \<le> length sample_ops" by (simp add: sample_ops_def)
  have "\<exists>c'. pool_run sample_client (take 5 sample_ops) = Some c' \<and> pool_inv c' \<and>
             list_all (state_ok 2) (states c')"
    using t i l by blast
  then show ?thesis using z k i by blast
qed

section \<open>Scenario S1: two instances, two tokens each\<close>

lemma budget_bound:
  fixes m tk lr t0 :: real
  assumes "tk = m \<or> (lr < t0 + 30 \<and> tk \<le> m + (lr - t0) / 30)"
  shows "tk < m + 1"
  using assms unfolding diff_divide_distrib by (elim disjE conjE) linarith+

lemma budget_refill:
  fixes m tk lr t0 r :: real
  assumes "t0 \<le> r" "r < t0 + 30" "m \<le> 2" "t0 \<le> lr" "m \<le> tk"
    "tk = m \<or> (lr < t0 + 30 \<and> tk \<le> m + (lr - t0) / 30)" "lr < r"
  shows "m \<le> min 2 (tk + (r - lr) / 30) \<and>
     (min 2 (tk + (r - lr) / 30) = m \<or> (r < t0 + 30 \<and> min 2 (tk + (r - lr) / 30) \<le> m + (r - t0) / 30))"
  using assms unfolding diff_divide_distrib min_def by (elim disjE conjE) (auto; linarith)+

lemma bucket_new:
  "t0 \<le> r \<Longrightarrow> bucket t0 2 (refill_tokens 2 r (new_state u 2 cr))"
  by (auto simp: bucket_def refill_tokens_def new_state_def Let_def)

lemma bucket_refill:
  assumes "t0 \<le> r" "r < t0 + 30" "m \<le> 2" "bucket t0 m s"
  shows "bucket t0 m (refill_tokens 2 r s)"
proof (cases "last_refill s < r")
  case True
  have "m \<le> min 2 (tokens s + (r - last_refill s) / 30) \<and>
     (min 2 (tokens s + (r - last_refill s) / 30) = m \<or>
      (r < t0 + 30 \<and> min 2 (tokens s + (r - last_refill s) / 30) \<le> m + (r - t0) / 30))"
    using assms True by (intro budget_refill) (simp_all add: bucket_def)
  then show ?thesis
    using assms True by (simp add: bucket_def refill_tokens_def Let_def)
next
  case False
  then show ?thesis using assms(4) by (simp add: refill_tokens_def Let_def)
qed

lemma bucket_bounds:
  assumes "bucket t0 m s"
  shows "m \<le> tokens s \<and> tokens s < m + 1 \<and> backoff_until s = 0"
proof -
  have "tokens s < m + 1"
    using assms by (intro budget_bound [of _ _ "last_refill s" t0]) (simp add: bucket_def)
  then show ?thesis using assms by (simp add: bucket_def)
qed

lemma bucket_take: "bucket t0 m s \<Longrightarrow> bucket t0 (m - 1) (s\<lparr>tokens := tokens s - 1\<rparr>)"
  by (auto simp: bucket_def)

lemma refill_base_url: "base_url (refill_tokens mx r s) = base_url s"
  by (simp add: refill_tokens_def Let_def)

lemma pair_hit0:
  assumes "0 \<le> clk 1" "bucket t0 m (refill_tokens 2 (clk 0) a)" "1 \<le> m"
  shows "acquire_instance clk (pair_client base a b 0) =
     Inr (Some 0, pair_client base ((refill_tokens 2 (clk 0) a)\<lparr>tokens := tokens (refill_tokens 2 (clk 0) a) - 1\<rparr>) b (Suc 0))"
proof -
  have b: "1 \<le> tokens (refill_tokens 2 (clk 0) a)" "backoff_until (refill_tokens 2 (clk 0) a) = 0"
    using bucket_bounds [OF assms(2)] assms(3) by auto
  show ?thesis
    unfolding acquire_instance_def pair_client_def
    using assms(1) b
    by (simp add: numeral_2_eq_2 Let_def)
qed

lemma pair_hit1:
  assumes "0 \<le> clk 1" "bucket t0 m (refill_tokens 2 (clk 0) b)" "1 \<le> m"
  shows "acquire_instance clk (pair_client base a b (Suc 0)) =
     Inr (Some 1, pair_client base a ((refill_tokens 2 (clk 0) b)\<lparr>tokens := tokens (refill_tokens 2 (clk 0) b) - 1\<rparr>) 0)"
proof -
  have b: "1 \<le> tokens (refill_tokens 2 (clk 0) b)" "backoff_until (refill_tokens 2 (clk 0) b) = 0"
    using bucket_bounds [OF assms(2)] assms(3) by auto
  show ?thesis
    unfolding acquire_instance_def pair_client_def
    using assms(1) b
    by (simp add: numeral_2_eq_2 Let_def)
qed

lemma pair_miss:
  assumes "bucket t0 0 (refill_tokens 2 (clk 0) a)" "bucket t0 0 (refill_tokens 2 (clk 2) b)"
  shows "\<exists>c. acquire_instance clk (pair_client base a b 0) = Inr (None, c)"
proof -
  have a: "tokens (refill_tokens 2 (clk 0) a) < 1"
    using bucket_bounds [OF assms(1)] by simp
  have b: "tokens (refill_tokens 2 (clk 2) b) < 1"
    using bucket_bounds [OF assms(2)] by simp
  show ?thesis
    unfolding acquire_instance_def pair_client_def
    using a b
    by (simp add: numeral_2_eq_2 Let_def)
qed

lemma client_init_pair:
  "client_init created [u, v] 2 base =
     Inr (pair_client (max 1 base) (new_state u 2 (created 0)) (new_state v 2 (created 1)) 0)"
  by (simp add: client_init_def pair_client_def upt_rec)

lemma new_state_url_a: "base_url (new_state ''https://a'' mx t) = ''https://a''"
  by (simp add: new_state_def rstrip_slash_def)

lemma new_state_url_b: "base_url (new_state ''https://b'' mx t) = ''https://b''"
  by (simp add: new_state_def rstrip_slash_def)

lemma pair_states: "states (pair_client base a b r) ! 0 = a" "states (pair_client base a b r) ! Suc 0 = b"
  by (simp_all add: pair_client_def)

lemma acquisitions_from_start:
  assumes t0: "0 \<le> t0"
    and w: "in_window t0 k1" "in_window t0 k2" "in_window t0 k3" "in_window t0 k4"
  shows "\<exists>a b. acquisitions (pair_client base (new_state ''https://a'' 2 ca) (new_state ''https://b'' 2 cb) 0)
            ([k1, k2, k3, k4] @ rest) =
          (case acquisitions (pair_client base a b 0) rest of
             Inl e \<Rightarrow> Inl e
           | Inr rs \<Rightarrow> Inr (Some ''https://a'' # Some ''https://b'' # Some ''https://a'' # Some ''https://b'' # rs))
          \<and> bucket t0 0 a \<and> bucket t0 0 b"
proof -
  let ?a0 = "new_state ''https://a'' 2 ca" and ?b0 = "new_state ''https://b'' 2 cb"
  let ?take = "\<lambda>s. s\<lparr>tokens := tokens s - 1\<rparr>"
  let ?a1 = "?take (refill_tokens 2 (k1 0) ?a0)"
  let ?b1 = "?take (refill_tokens 2 (k2 0) ?b0)"
  let ?a2 = "?take (refill_tokens 2 (k3 0) ?a1)"
  let ?b2 = "?take (refill_tokens 2 (k4 0) ?b1)"
  have r: "0 \<le> k j \<and> t0 \<le> k j \<and> k j < t0 + 30" if "in_window t0 k" for k j
  proof -
    have "t0 \<le> k j" "k j \<le> t0 + 29" using that by (simp_all add: in_window_def)
    then show ?thesis using t0 by linarith
  qed
  have a1: "bucket t0 2 (refill_tokens 2 (k1 0) ?a0)" using r [OF w(1)] by (simp add: bucket_new)
  have b1: "bucket t0 2 (refill_tokens 2 (k2 0) ?b0)" using r [OF w(2)] by (simp add: bucket_new)
  have a1': "bucket t0 1 ?a1" using bucket_take [OF a1] by simp
  have b1': "bucket t0 1 ?b1" using bucket_take [OF b1] by simp
  have a2: "bucket t0 1 (refill_tokens 2 (k3 0) ?a1)"
    using r [OF w(3)] a1' by (intro bucket_refill) simp_all
  have b2: "bucket t0 1 (refill_tokens 2 (k4 0) ?b1)"
    using r [OF w(4)] b1' by (intro bucket_refill) simp_all
  have a2': "bucket t0 0 ?a2" using bucket_take [OF a2] by simp
  have b2': "bucket t0 0 ?b2" using bucket_take [OF b2] by simp
  have s1: "acquire_instance k1 (pair_client base ?a0 ?b0 0) = Inr (Some 0, pair_client base ?a1 ?b0 (Suc 0))"
    using r [OF w(1), of 1] a1 by (intro pair_hit0 [of _ t0 2]) simp_all
  have s2: "acquire_instance k2 (pair_client base ?a1 ?b0 (Suc 0)) = Inr (Some 1, pair_client base ?a1 ?b1 0)"
    using r [OF w(2), of 1] b1 by (intro pair_hit1 [of _ t0 2]) simp_all
  have s3: "acquire_instance k3 (pair_client base ?a1 ?b1 0) = Inr (Some 0, pair_client base ?a2 ?b1 (Suc 0))"
    using r [OF w(3), of 1] a2 by (intro pair_hit0 [of _ t0 1]) simp_all
  have s4: "acquire_instance k4 (pair_client base ?a2 ?b1 (Suc 0)) = Inr (Some 1, pair_client base ?a2 ?b2 0)"
    using r [OF w(4), of 1] b2 by (intro pair_hit1 [of _ t0 1]) simp_all
  have urls: "base_url ?a1 = ''https://a''" "base_url ?b1 = ''https://b''"
    "base_url ?a2 = ''https://a''" "base_url ?b2 = ''https://b''"
    by (simp_all add: refill_base_url new_state_url_a new_state_url_b)
  have "acquisitions (pair_client base ?a0 ?b0 0) ([k1, k2, k3, k4] @ rest) =
          (case acquisitions (pair_client base ?a2 ?b2 0) rest of
             Inl e \<Rightarrow> Inl e
           | Inr rs \<Rightarrow> Inr (Some ''https://a'' # Some ''https://b'' # Some ''https://a'' # Some ''https://b'' # rs))"
    by (simp add: s1 s2 s3 s4 pair_states urls split: sum.splits)
  then show ?thesis using a2' b2' by blast
qed

text \<open>
  Claim C4, amended. With the instances \<open>https://a\<close> and \<open>https://b\<close> and
  \<open>max_requests_per_instance_per_minute = 2\<close>, from the startup state, the first four
  acquisitions return \<open>https://a\<close>, \<open>https://b\<close>, \<open>https://a\<close>, \<open>https://b\<close>; the
  fifth returns no instance when every clock reading of the five acquisitions lies in
  one span of at most 29 seconds that starts at a time \<open>t0 \<ge> 0\<close>.
\<close>

theorem s1_four_acquisitions_then_blocked:
  assumes "0 \<le> t0" and "list_all (in_window t0) [k1, k2, k3, k4, k5]"
  shows "start_and_acquire created [''https://a'', ''https://b''] 2 base [k1, k2, k3, k4, k5] =
           Inr [Some ''https://a'', Some ''https://b'', Some ''https://a'', Some ''https://b'', None]"
proof -
  have w: "in_window t0 k1" "in_window t0 k2" "in_window t0 k3" "in_window t0 k4" "in_window t0 k5"
    using assms(2) by simp_all
  obtain a b where run: "acquisitions
        (pair_client (max 1 base) (new_state ''https://a'' 2 (created 0)) (new_state ''https://b'' 2 (created 1)) 0)
        ([k1, k2, k3, k4] @ [k5]) =
      (case acquisitions (pair_client (max 1 base) a b 0) [k5] of
         Inl e \<Rightarrow> Inl e
       | Inr rs \<Rightarrow> Inr (Some ''https://a'' # Some ''https://b'' # Some ''https://a'' # Some ''https://b'' # rs))"
    and ab: "bucket t0 0 a" "bucket t0 0 b"
    using acquisitions_from_start [OF assms(1) w(1-4), of "max 1 base" "created 0" "created 1" "[k5]"] by blast
  have r5: "t0 \<le> k5 j \<and> k5 j < t0 + 30" for j
  proof -
    have "t0 \<le> k5 j" "k5 j \<le> t0 + 29" using w(5) by (simp_all add: in_window_def)
    then show ?thesis by linarith
  qed
  have "bucket t0 0 (refill_tokens 2 (k5 0) a)" "bucket t0 0 (refill_tokens 2 (k5 2) b)"
    using r5 ab by (auto intro: bucket_refill)
  then obtain c where "acquire_instance k5 (pair_client (max 1 base) a b 0) = Inr (None, c)"
    using pair_miss by blast
  then have "acquisitions (pair_client (max 1 base) a b 0) [k5] = Inr [None]" by simp
  then show ?thesis
    using run by (simp add: start_and_acquire_def client_init_pair)
qed

theorem s1_four_acquisitions_then_blocked_witness:
  "(0::real) \<le> 0
   \<and> list_all (in_window 0) [\<lambda>j. 1, \<lambda>j. 2, \<lambda>j. 3, \<lambda>j. 4, \<lambda>j. 5]
   \<and> start_and_acquire (\<lambda>k. 0) [''https://a'', ''https://b''] 2 2 [\<lambda>j. 1, \<lambda>j. 2, \<lambda>j. 3, \<lambda>j. 4, \<lambda>j. 5] =
       Inr [Some ''https://a'', Some ''https://b'', Some ''https://a'', Some ''https://b'', None]"
proof -
  have z: "(0::real) \<le> 0" by simp
  have w: "list_all (in_window 0) [\<lambda>j. 1, \<lambda>j. 2, \<lambda>j. 3, \<lambda>j. 4, \<lambda>j. 5]"
    by (simp add: in_window_def)
  show ?thesis
    using z w s1_four_acquisitions_then_blocked [OF z w, of "\<lambda>k. 0" 2] by blast
qed

text \<open>
  Claim C4 as stated fails: each instance has its own bucket of 2 tokens, so the third
  acquisition (at the readings 1, 2, 3 seconds) returns \<open>https://a\<close> again.
\<close>

theorem s1_third_acquisition_counterexample:
  "start_and_acquire (\<lambda>k. 0) [''https://a'', ''https://b''] 2 2 [\<lambda>j. 1, \<lambda>j. 2, \<lambda>j. 3] =
     Inr [Some ''https://a'', Some ''https://b'', Some ''https://a'']
   \<and> start_and_acquire (\<lambda>k. 0) [''https://a'', ''https://b''] 2 2 [\<lambda>j. 1, \<lambda>j. 2, \<lambda>j. 3] \<noteq>
     Inr [Some ''https://a'', Some ''https://b'', None]"
  by (simp add: start_and_acquire_def client_init_def acquire_instance_def upt_rec
      refill_tokens_def new_state_def rstrip_slash_def Let_def numeral_2_eq_2)

section \<open>The HTML fallback\<close>

lemma takeWhile_nonempty: "(takeWhile P xs \<noteq> []) = (xs \<noteq> [] \<and> P (hd xs))"
  by (cases xs) auto

lemma match_at_occurs:
  "(match_at (drop i html) \<noteq> None) = occurs_at html i"
proof -
  have "(drop (i + 8) html \<noteq> [] \<and> is_digit (hd (drop (i + 8) html))) =
        (i + 8 < length html \<and> is_digit (html ! (i + 8)))"
    by (auto simp: hd_drop_conv_nth)
  then show ?thesis
    by (simp add: match_at_def occurs_at_def takeWhile_nonempty add.commute)
qed

lemma match_at_digits:
  "match_at s = Some ds \<Longrightarrow> ds = takeWhile is_digit (drop 8 s) \<and> ds \<noteq> [] \<and> take 8 s = ''/status/''"
  by (auto simp: match_at_def split: if_splits)

lemma occurs_at_0: "occurs_at s 0 = (match_at s \<noteq> None)"
  using match_at_occurs [of 0 s] by simp

lemma occurs_at_drop: "occurs_at (drop n s) i = occurs_at s (n + i)"
  by (auto simp: occurs_at_def add.commute add.left_commute add.assoc)

lemma occurs_at_Cons: "occurs_at (c # cs) (Suc i) = occurs_at cs i"
  by (simp add: occurs_at_def add.commute)

lemma occurs_chars:
  assumes "occurs_at s i"
  shows "s ! i = CHR ''/'' \<and> s ! Suc i = CHR ''s''"
proof -
  have t: "take 8 (drop i s) = ''/status/''" and l: "i + 8 < length s"
    using assms by (simp_all add: occurs_at_def)
  have "take 8 (drop i s) ! 0 = s ! i" "take 8 (drop i s) ! 1 = s ! Suc i"
    using l by simp_all
  then show ?thesis unfolding t by simp
qed

lemma inside_match_not_start:
  assumes m: "match_at s = Some ds" and i: "0 < i" "i < 8 + length ds"
  shows "\<not> occurs_at s i"
proof
  assume o: "occurs_at s i"
  have c: "s ! i = CHR ''/''" "s ! Suc i = CHR ''s''" using occurs_chars [OF o] by simp_all
  have t: "take 8 s = ''/status/''" and ds: "ds = takeWhile is_digit (drop 8 s)" and ne: "ds \<noteq> []"
    using match_at_digits [OF m] by blast+
  have len: "8 + length ds \<le> length s"
    using ds length_takeWhile_le [of is_digit "drop 8 s"] ne by (cases "length s \<le> 8") auto
  have dig: "is_digit (s ! k)" if "8 \<le> k" "k < 8 + length ds" for k
  proof -
    have "k - 8 < length ds" using that by simp
    then have "ds ! (k - 8) \<in> set ds" by simp
    then have d: "is_digit (ds ! (k - 8))" unfolding ds by (auto dest: set_takeWhileD)
    have "ds ! (k - 8) = drop 8 s ! (k - 8)"
      unfolding ds using \<open>k - 8 < length ds\<close> ds by (simp add: takeWhile_nth)
    also have "\<dots> = s ! k" using that len by simp
    finally show ?thesis using d by simp
  qed
  have nd: "\<not> is_digit (CHR ''/'')" "\<not> is_digit (CHR ''s'')" by (simp_all add: is_digit_def)
  consider "i < 7" | "i = 7" | "8 \<le> i" using i by linarith
  then show False
  proof cases
    case 1
    then have "s ! i = take 8 s ! i" by simp
    then have "''/status/'' ! i = CHR ''/''" using c(1) t by simp
    moreover have "i \<in> {1, 2, 3, 4, 5, 6}" using 1 i(1) by auto
    ultimately show False by auto
  next
    case 2
    then have "is_digit (s ! Suc i)" using dig [of 8] ne by simp
    then show False using c(2) nd by simp
  next
    case 3
    then have "is_digit (s ! i)" using dig i(2) by simp
    then show False using c(1) nd by simp
  qed
qed

lemma filter_upt_shift:
  "filter P [n..<n + k] = map (\<lambda>i. n + i) (filter (\<lambda>i. P (n + i)) [0..<k])"
proof -
  have "[n..<n + k] = map (\<lambda>i. n + i) [0..<k]"
    by (simp add: map_add_upt add.commute)
  then show ?thesis by (simp add: filter_map comp_def)
qed

lemma occurrences_Cons_no_match:
  assumes "match_at (c # cs) = None"
  shows "occurrences (c # cs) = map Suc (occurrences cs)"
proof -
  have "\<not> occurs_at (c # cs) 0" using assms by (simp add: occurs_at_0)
  moreover have "[0..<length (c # cs)] = 0 # map Suc [0..<length cs]"
    by (simp add: upt_conv_Cons map_Suc_upt del: upt_Suc)
  ultimately show ?thesis
    by (simp add: occurrences_def filter_map comp_def occurs_at_Cons del: upt_Suc)
qed

lemma occurrences_match:
  assumes m: "match_at s = Some ds"
  shows "occurrences s = 0 # map (\<lambda>i. 8 + length ds + i) (occurrences (drop (8 + length ds) s))"
proof -
  let ?n = "8 + length ds"
  have ds: "ds = takeWhile is_digit (drop 8 s)" and ne: "ds \<noteq> []"
    using match_at_digits [OF m] by blast+
  have len: "?n \<le> length s"
    using ds length_takeWhile_le [of is_digit "drop 8 s"] ne by (cases "length s \<le> 8") auto
  have "[0..<?n + (length s - ?n)] = [0..<?n] @ [?n..<?n + (length s - ?n)]"
    by (rule upt_add_eq_append) simp
  moreover have "[0..<?n] = 0 # [Suc 0..<?n]"
    by (rule upt_conv_Cons) simp
  ultimately have split: "[0..<length s] = 0 # [Suc 0..<?n] @ [?n..<?n + (length s - ?n)]"
    using len by simp
  have o0: "occurs_at s 0" using m by (simp add: occurs_at_0)
  have mid: "filter (occurs_at s) [Suc 0..<?n] = []"
    using inside_match_not_start [OF m] by (auto simp: filter_empty_conv)
  have tail: "filter (occurs_at s) [?n..<?n + (length s - ?n)] =
      map (\<lambda>i. ?n + i) (filter (occurs_at (drop ?n s)) [0..<length s - ?n])"
  proof -
    have "occurs_at (drop ?n s) = (\<lambda>i. occurs_at s (?n + i))"
      by (rule ext) (rule occurs_at_drop)
    then show ?thesis unfolding filter_upt_shift by simp
  qed
  show ?thesis
    unfolding occurrences_def split
    using o0 by (simp only: filter.simps filter_append mid tail if_True append_Nil length_drop)
qed

lemma finditer_occurrences:
  "map fst (finditer pos s) = map (\<lambda>i. pos + i) (occurrences s)"
proof (induction pos s rule: finditer.induct)
  case (1 pos s)
  show ?case
  proof (cases "s = []")
    case True
    then show ?thesis by (simp add: finditer.simps occurrences_def)
  next
    case False
    then obtain c cs where s: "s = c # cs" by (cases s) auto
    show ?thesis
    proof (cases "match_at s")
      case None
      have "map fst (finditer (pos + 1) (tl s)) = map (\<lambda>i. pos + 1 + i) (occurrences (tl s))"
        using "1.IH"(1) [OF False None] .
      then show ?thesis
        using None False occurrences_Cons_no_match [of c cs] s
        by (subst finditer.simps) (simp add: comp_def)
    next
      case (Some ds)
      have "map fst (finditer (pos + 8 + length ds) (drop (8 + length ds) s)) =
            map (\<lambda>i. pos + 8 + length ds + i) (occurrences (drop (8 + length ds) s))"
        using "1.IH"(2) [OF False Some] .
      then show ?thesis
        using Some False occurrences_match [OF Some]
        by (subst finditer.simps) (simp add: comp_def add.assoc)
    qed
  qed
qed

lemma finditer_digits:
  "(i, ds) \<in> set (finditer pos s) \<Longrightarrow> pos \<le> i \<and> ds = takeWhile is_digit (drop (i - pos + 8) s)"
proof (induction pos s rule: finditer.induct)
  case (1 pos s)
  show ?case
  proof (cases "s = []")
    case True
    then show ?thesis using "1.prems" by (simp add: finditer.simps)
  next
    case False
    show ?thesis
    proof (cases "match_at s")
      case None
      then have "(i, ds) \<in> set (finditer (pos + 1) (tl s))"
        using "1.prems" False by (subst (asm) finditer.simps) simp
      then have "pos + 1 \<le> i \<and> ds = takeWhile is_digit (drop (i - (pos + 1) + 8) (tl s))"
        by (rule "1.IH"(1) [OF False None])
      then have le: "pos + 1 \<le> i" and d: "ds = takeWhile is_digit (drop (i - (pos + 1) + 8) (tl s))"
        by blast+
      have e: "Suc (i - (pos + 1) + 8) = i - pos + 8" using le by linarith
      have "drop (i - (pos + 1) + 8) (tl s) = drop (Suc (i - (pos + 1) + 8)) s"
        by (simp only: drop_Suc)
      then have "ds = takeWhile is_digit (drop (i - pos + 8) s)"
        using d unfolding e by simp
      moreover have "pos \<le> i" using le by linarith
      ultimately show ?thesis by blast
    next
      case (Some es)
      then consider "(i, ds) = (pos, es)" | "(i, ds) \<in> set (finditer (pos + 8 + length es) (drop (8 + length es) s))"
        using "1.prems" False by (subst (asm) finditer.simps) auto
      then show ?thesis
      proof cases
        case 1
        then show ?thesis using match_at_digits [OF Some] by simp
      next
        case 2
        from "1.IH"(2) [OF False Some 2]
        have le: "pos + 8 + length es \<le> i"
          and d: "ds = takeWhile is_digit (drop (i - (pos + 8 + length es) + 8) (drop (8 + length es) s))"
          by blast+
        have e: "i - (pos + 8 + length es) + 8 + (8 + length es) = i - pos + 8" using le by linarith
        have "ds = takeWhile is_digit (drop (i - pos + 8) s)"
          using d unfolding drop_drop e .
        moreover have "pos \<le> i" using le by linarith
        ultimately show ?thesis by blast
      qed
    qed
  qed
qed

lemma parse_html_occurrences:
  "parse_html html =
     map (\<lambda>i. html_entry html (i, takeWhile is_digit (drop (i + 8) html))) (occurrences html)"
proof -
  have "map (html_entry html) (finditer 0 html) =
        map (\<lambda>m. html_entry html (fst m, takeWhile is_digit (drop (fst m + 8) html))) (finditer 0 html)"
  proof (rule map_cong [OF refl])
    fix m assume "m \<in> set (finditer 0 html)"
    then have "(fst m, snd m) \<in> set (finditer 0 html)" by simp
    then have "snd m = takeWhile is_digit (drop (fst m - 0 + 8) html)"
      using finditer_digits by blast
    then show "html_entry html m = html_entry html (fst m, takeWhile is_digit (drop (fst m + 8) html))"
      by (cases m) simp
  qed
  also have "\<dots> = map (\<lambda>i. html_entry html (i, takeWhile is_digit (drop (i + 8) html))) (map fst (finditer 0 html))"
    by (simp add: comp_def)
  also have "map fst (finditer 0 html) = occurrences html"
    using finditer_occurrences [of 0 html] by simp
  finally show ?thesis by (simp add: parse_html_def)
qed

lemma fetch_target_success:
  assumes "acquire_instance (env_acquire_clock env) c = Inr (Some i, c1)"
    and "env_http env (construct_url (states c1 ! i) ty v) = Returned r"
    and "resp_status_code r < 400"
  shows "fetch_target env c ty v =
     Inr ((if parse_rss (resp_feed r) = [] \<and> \<not> py_in ''xml'' (or_empty (resp_content_type r))
           then parse_html (resp_text r) else parse_rss (resp_feed r),
           Some (base_url (states c1 ! i)), None),
          on_state i (release_instance_on_success (env_end env - env_start env)) c1)"
  using assms by (simp add: fetch_target_def fetch_def Let_def)

text \<open>
  Claim C6, amended. For every body, \<open>_parse_html\<close> yields exactly one record per
  occurrence of \<open>/status/<digits>\<close>, in the order of the occurrences: its id (and link) is
  the digit sequence, and its summary, also stored under \<open>raw\<close> as \<open>excerpt\<close>, is the
  whitespace-normalized slice of 400 characters of the body that starts 200 characters
  before the start of the match, or at the start of the body when the match starts within
  its first 200 characters. A fetch whose response has a status below 400 returns the
  records of \<open>_parse_html\<close> exactly when the syndication parse yields nothing and the
  \<open>Content-Type\<close> does not contain \<open>xml\<close>, and those of the syndication parse otherwise.
\<close>

theorem html_fallback_entries:
  "parse_html html =
     map (\<lambda>i. let tweet_id = takeWhile is_digit (drop (i + 8) html);
                  excerpt = normalize_ws (take 400 (drop (i - 200) html))
              in \<lparr>e_id = tweet_id, e_title = ''Tweet'', e_summary = excerpt, e_link = tweet_id,
                  e_published = [], e_raw = JObject [(''excerpt'', JString excerpt)]\<rparr>)
       (occurrences html)
   \<and> (\<forall>env c ty v i c1 r.
         acquire_instance (env_acquire_clock env) c = Inr (Some i, c1) \<and>
         env_http env (construct_url (states c1 ! i) ty v) = Returned r \<and>
         resp_status_code r < 400 \<longrightarrow>
         (\<exists>c2. fetch_target env c ty v =
            Inr ((if parse_rss (resp_feed r) = [] \<and> \<not> py_in ''xml'' (or_empty (resp_content_type r))
                  then parse_html (resp_text r) else parse_rss (resp_feed r),
                  Some (base_url (states c1 ! i)), None), c2)))"
proof -
  have "\<And>i. (if i < 200 then 0 else i - 200) = i - (200::nat)" by simp
  then have "parse_html html =
     map (\<lambda>i. let tweet_id = takeWhile is_digit (drop (i + 8) html);
                  excerpt = normalize_ws (take 400 (drop (i - 200) html))
              in \<lparr>e_id = tweet_id, e_title = ''Tweet'', e_summary = excerpt, e_link = tweet_id,
                  e_published = [], e_raw = JObject [(''excerpt'', JString excerpt)]\<rparr>)
       (occurrences html)"
    unfolding parse_html_occurrences by (simp add: html_entry_def html_excerpt_def Let_def)
  then show ?thesis using fetch_target_success by blast
qed

lemma sample_client_acquire:
  "\<exists>c1. acquire_instance (\<lambda>j. 1) sample_client = Inr (Some 0, c1) \<and>
         base_url (states c1 ! 0) = ''https://a''"
  by (simp add: acquire_instance_def sample_client_def new_state_def refill_tokens_def
      rstrip_slash_def Let_def numeral_2_eq_2)

lemma sample_html_occurrences: "occurrences sample_html_body = [14]"
  by (simp add: occurrences_def sample_html_body_def occurs_at_def is_digit_def upt_rec)

theorem html_fallback_entries_witness:
  "occurrences sample_html_body = [14]
   \<and> map e_id (parse_html sample_html_body) = [''12345'']
   \<and> length (parse_html sample_html_body) = 1
   \<and> (\<exists>c2. fetch_target (sample_fetch_env (Returned sample_html_response)) sample_client ''user'' ''alice'' =
          Inr ((parse_html sample_html_body, Some ''https://a'', None), c2))"
proof -
  note t = html_fallback_entries [of sample_html_body]
  have ids: "map e_id (parse_html sample_html_body) = [''12345'']"
    using t by (simp add: sample_html_occurrences Let_def) (simp add: sample_html_body_def is_digit_def)
  then have len: "length (parse_html sample_html_body) = 1"
    by (metis length_map list.size(3,4) One_nat_def add.commute plus_1_eq_Suc)
  obtain c1 where a: "acquire_instance (\<lambda>j. 1) sample_client = Inr (Some 0, c1)"
    and u: "base_url (states c1 ! 0) = ''https://a''"
    using sample_client_acquire by blast
  have h: "acquire_instance (env_acquire_clock (sample_fetch_env (Returned sample_html_response))) sample_client
             = Inr (Some 0, c1)
      \<and> env_http (sample_fetch_env (Returned sample_html_response)) (construct_url (states c1 ! 0) ''user'' ''alice'')
             = Returned sample_html_response
      \<and> resp_status_code sample_html_response < 400"
    using a u by (simp add: sample_fetch_env_def construct_url_def sample_html_response_def)
  have "\<exists>c2. fetch_target (sample_fetch_env (Returned sample_html_response)) sample_client ''user'' ''alice'' =
          Inr ((if parse_rss (resp_feed sample_html_response) = [] \<and>
                   \<not> py_in ''xml'' (or_empty (resp_content_type sample_html_response))
                then parse_html (resp_text sample_html_response)
                else parse_rss (resp_feed sample_html_response),
                Some (base_url (states c1 ! 0)), None), c2)"
    using t h by blast
  then have f: "\<exists>c2. fetch_target (sample_fetch_env (Returned sample_html_response)) sample_client ''user'' ''alice'' =
          Inr ((parse_html sample_html_body, Some ''https://a'', None), c2)"
    using u by (simp add: sample_html_response_def parse_rss_def or_empty_def)
  show ?thesis using sample_html_occurrences ids len f by blast
qed

lemma finditer_no_slash: "CHR ''/'' \<notin> set s \<Longrightarrow> finditer pos s = []"
proof (induction s arbitrary: pos)
  case Nil
  then show ?case by (simp add: finditer.simps)
next
  case (Cons c cs)
  then have "match_at (c # cs) = None" by (auto simp: match_at_def)
  then show ?case using Cons by (subst finditer.simps) simp
qed

lemma normalize_ws_no_space: "\<forall>c\<in>set s. \<not> is_space c \<Longrightarrow> normalize_ws s = s"
  by (induction s) auto

lemma length_normalize_ws: "length (normalize_ws s) \<le> length s"
proof (induction s rule: normalize_ws.induct)
  case 1
  then show ?case by simp
next
  case (2 c cs)
  show ?case
  proof (cases "is_space c")
    case True
    have "length (normalize_ws (dropWhile is_space cs)) \<le> length (dropWhile is_space cs)"
      using 2(1) [OF True] .
    also have "\<dots> \<le> length cs" by (rule length_dropWhile_le)
    finally show ?thesis using True by simp
  next
    case False
    then show ?thesis using 2(2) by simp
  qed
qed

lemma sample_long_body_match: "finditer 0 sample_long_body = [(0, ''7'')]"
proof -
  have m: "match_at sample_long_body = Some ''7''"
    by (simp add: match_at_def sample_long_body_def is_digit_def takeWhile_replicate)
  have "finditer 9 (replicate 250 (CHR ''x'')) = []"
    by (rule finditer_no_slash) simp
  moreover have "drop 9 sample_long_body = replicate 250 (CHR ''x'')"
    by (simp add: sample_long_body_def)
  ultimately show ?thesis
    using m by (subst finditer.simps) (simp add: sample_long_body_def)
qed

text \<open>
  Claim C6 as stated fails: for a body that starts with \<open>/status/7\<close> followed by 250
  other characters the summary is the whole body (259 characters), which is none of
  the readings of the 200 characters before and the 200 characters after the match: with
  the match between them (209 characters), without it (200 characters), or counted from
  the start of the match (200 characters).
\<close>

theorem html_window_counterexample:
  "finditer 0 sample_long_body = [(0, ''7'')]
   \<and> map e_summary (parse_html sample_long_body) = [sample_long_body]
   \<and> sample_long_body \<noteq> claimed_window_with_match sample_long_body 0 9
   \<and> sample_long_body \<noteq> claimed_window_without_match sample_long_body 0 9
   \<and> sample_long_body \<noteq> claimed_window_from_match_start sample_long_body 0"
proof -
  have l: "length sample_long_body = 259" by (simp add: sample_long_body_def)
  have "\<forall>c\<in>set sample_long_body. \<not> is_space c"
    by (simp add: sample_long_body_def is_space_def)
  then have n: "normalize_ws sample_long_body = sample_long_body"
    by (rule normalize_ws_no_space)
  have "take 400 sample_long_body = sample_long_body" using l by simp
  then have s: "map e_summary (parse_html sample_long_body) = [sample_long_body]"
    by (simp add: parse_html_def sample_long_body_match html_entry_def html_excerpt_def n Let_def)
  have "length (claimed_window_with_match sample_long_body 0 9) \<le> length (take 209 sample_long_body)"
    unfolding claimed_window_with_match_def using length_normalize_ws [of "take 209 sample_long_body"] by simp
  then have w: "sample_long_body \<noteq> claimed_window_with_match sample_long_body 0 9"
    using l by auto
  have "length (claimed_window_without_match sample_long_body 0 9) \<le> length (take 200 (drop 9 sample_long_body))"
    unfolding claimed_window_without_match_def
    using length_normalize_ws [of "take 200 (drop 9 sample_long_body)"] by simp
  then have wo: "sample_long_body \<noteq> claimed_window_without_match sample_long_body 0 9"
    using l by auto
  have "length (claimed_window_from_match_start sample_long_body 0) \<le> length (take 200 sample_long_body)"
    unfolding claimed_window_from_match_start_def
    using length_normalize_ws [of "take 200 sample_long_body"] by simp
  then have fs: "sample_long_body \<noteq> claimed_window_from_match_start sample_long_body 0"
    using l by auto
  show ?thesis using sample_long_body_match s w wo fs by blast
qed

section \<open>The event broker\<close>

lemma put_nowait_unbounded: "q_maxsize qu = 0 \<Longrightarrow> put_nowait item qu = Some (qu\<lparr>q_items := q_items qu @ [item]\<rparr>)"
  by (simp add: put_nowait_def)

lemma publish_to_unbounded:
  assumes "br_queues b q = Some qu" "q_maxsize qu = 0"
  shows "publish_to payload b q = b\<lparr>br_queues := (br_queues b)(q \<mapsto> qu\<lparr>q_items := q_items qu @ [payload]\<rparr>)\<rparr>"
  using assms by (simp add: publish_to_def put_nowait_unbounded)

lemma publish_to_full:
  assumes "br_queues b q = Some qu" "0 < q_maxsize qu" "q_maxsize qu \<le> int (length (q_items qu))"
  shows "publish_to payload b q = b\<lparr>br_clients := remove1 q (br_clients b)\<rparr>"
  using assms by (simp add: publish_to_def put_nowait_def)

lemma foldl_publish_to:
  assumes "\<forall>q. \<forall>qu. br_queues b q = Some qu \<longrightarrow> q_maxsize qu = 0"
    and "\<forall>q\<in>set qs. br_queues b q \<noteq> None" and "distinct qs"
  shows "br_clients (foldl (publish_to payload) b qs) = br_clients b
    \<and> br_fresh (foldl (publish_to payload) b qs) = br_fresh b
    \<and> (\<forall>q. br_queues (foldl (publish_to payload) b qs) q =
          (if q \<in> set qs
           then map_option (\<lambda>qu. qu\<lparr>q_items := q_items qu @ [payload]\<rparr>) (br_queues b q)
           else br_queues b q))"
  using assms
proof (induction qs arbitrary: b)
  case Nil
  then show ?case by simp
next
  case (Cons q qs)
  obtain qu where qu: "br_queues b q = Some qu" using Cons.prems(2) by auto
  then have m: "q_maxsize qu = 0" using Cons.prems(1) by blast
  let ?b = "b\<lparr>br_queues := (br_queues b)(q \<mapsto> qu\<lparr>q_items := q_items qu @ [payload]\<rparr>)\<rparr>"
  have step: "publish_to payload b q = ?b" using qu m by (rule publish_to_unbounded)
  have 1: "\<forall>q'. \<forall>qu'. br_queues ?b q' = Some qu' \<longrightarrow> q_maxsize qu' = 0"
    using Cons.prems(1) m by auto
  have 2: "\<forall>q'\<in>set qs. br_queues ?b q' \<noteq> None" using Cons.prems(2) by auto
  have 3: "distinct qs" "q \<notin> set qs" using Cons.prems(3) by auto
  note ih = Cons.IH [OF 1 2 3(1)]
  show ?case
    unfolding foldl_Cons step using ih 3(2) qu by auto
qed

lemma publish_ok:
  assumes "broker_ok b"
  shows "br_clients (publish dumps event_type data b) = br_clients b
    \<and> br_fresh (publish dumps event_type data b) = br_fresh b
    \<and> (\<forall>q. br_queues (publish dumps event_type data b) q =
          (if q \<in> set (br_clients b)
           then map_option (\<lambda>qu. qu\<lparr>q_items := q_items qu @ [event_payload dumps event_type data]\<rparr>)
                  (br_queues b q)
           else br_queues b q))"
  unfolding publish_def
  using assms by (intro foldl_publish_to) (auto simp: broker_ok_def)

lemma publish_keeps_ok:
  assumes "broker_ok b"
  shows "broker_ok (publish dumps event_type data b)"
proof -
  note p = publish_ok [OF assms, of dumps event_type data]
  show ?thesis
    using assms unfolding broker_ok_def
    by (simp add: p) (metis option.map_disc_iff option.sel option.simps(9) py_queue.select_convs(1) py_queue.surjective py_queue.update_convs(2))
qed

lemma new_broker_ok: "broker_ok new_broker"
  by (simp add: broker_ok_def new_broker_def)

lemma register_keeps_ok:
  assumes "broker_ok b"
  shows "broker_ok (snd (register b))"
proof -
  have "br_fresh b \<notin> set (br_clients b)" "br_queues b (br_fresh b) = None"
    using assms unfolding broker_ok_def by (metis less_irrefl)+
  then show ?thesis
    using assms unfolding broker_ok_def register_def
    by (auto simp: less_Suc_eq)
qed

lemma unregister_keeps_ok: "broker_ok b \<Longrightarrow> broker_ok (unregister q b)"
  unfolding broker_ok_def unregister_def by auto

lemma queue_get_keeps_ok: "broker_ok b \<Longrightarrow> broker_ok (snd (queue_get q b))"
  unfolding broker_ok_def queue_get_def
  by (auto split: option.splits list.splits)

lemma broker_step_keeps_ok: "broker_ok b \<Longrightarrow> broker_ok (broker_step dumps b x)"
  by (cases x) (simp_all add: register_keeps_ok unregister_keeps_ok publish_keeps_ok queue_get_keeps_ok)

lemma foldl_broker_step_ok: "broker_ok b \<Longrightarrow> broker_ok (foldl (broker_step dumps) b xs)"
  by (induction xs arbitrary: b) (simp_all add: broker_step_keeps_ok)

lemma broker_run_ok: "broker_ok (broker_run dumps xs)"
  unfolding broker_run_def by (rule foldl_broker_step_ok) (rule new_broker_ok)

lemma publish_delivers_to_all:
  "q \<in> set (br_clients (broker_run dumps xs)) \<Longrightarrow>
     \<exists>qu. br_queues (broker_run dumps xs) q = Some qu \<and>
       br_queues (publish dumps event_type data (broker_run dumps xs)) q =
         Some (qu\<lparr>q_items := q_items qu @ [event_payload dumps event_type data]\<rparr>)"
  using publish_ok [of "broker_run dumps xs" dumps event_type data, OF broker_run_ok]
    broker_run_ok [of dumps xs]
  unfolding broker_ok_def by auto

text \<open>
  On the brokers the application can reach. \<open>register\<close> creates every queue with
  \<open>queue.Queue()\<close>, which is unbounded, so after any run of registrations, deregistrations,
  publishes and reads no queue is full, and \<open>publish\<close> leaves the list of subscribers as it
  was (and, by \<open>publish_delivers_to_all\<close>, appends the payload to the queue of each of
  them): after two registrations and three publishes that nobody reads, both subscribers
  are still registered and the first holds all three payloads.
\<close>

theorem publish_never_drops_subscriber:
  "br_clients (publish dumps event_type data (broker_run dumps xs)) = br_clients (broker_run dumps xs)
   \<and> br_clients (broker_run sample_dumps
        [Register, Register, Publish ''tick'' JNull, Publish ''tick'' JNull, Publish ''tick'' JNull]) = [0, 1]
   \<and> map_option (\<lambda>qu. length (q_items qu)) (br_queues (broker_run sample_dumps
        [Register, Register, Publish ''tick'' JNull, Publish ''tick'' JNull, Publish ''tick'' JNull]) 0) = Some 3"
proof -
  have g: "br_clients (publish dumps event_type data (broker_run dumps xs)) = br_clients (broker_run dumps xs)"
    using publish_ok [OF broker_run_ok] by blast
  have c: "br_clients (broker_run sample_dumps
        [Register, Register, Publish ''tick'' JNull, Publish ''tick'' JNull, Publish ''tick'' JNull]) = [0, 1]
   \<and> map_option (\<lambda>qu. length (q_items qu)) (br_queues (broker_run sample_dumps
        [Register, Register, Publish ''tick'' JNull, Publish ''tick'' JNull, Publish ''tick'' JNull]) 0) = Some 3"
    by (simp add: broker_run_def new_broker_def register_def publish_def publish_to_def put_nowait_def)
  show ?thesis using g c by blast
qed

lemma remove1_filter: "distinct xs \<Longrightarrow> remove1 q xs = filter (\<lambda>x. x \<noteq> q) xs"
proof -
  have "filter (\<lambda>x. x \<noteq> q) xs = removeAll q xs" by (induction xs) auto
  then show "distinct xs \<Longrightarrow> remove1 q xs = filter (\<lambda>x. x \<noteq> q) xs"
    by (simp add: distinct_remove1_removeAll)
qed

lemma publish_to_cases:
  assumes "br_queues b q = Some qu"
  shows "publish_to payload b q =
     (if queue_full b q then b\<lparr>br_clients := remove1 q (br_clients b)\<rparr>
      else b\<lparr>br_queues := (br_queues b)(q \<mapsto> qu\<lparr>q_items := q_items qu @ [payload]\<rparr>)\<rparr>)"
  using assms by (simp add: publish_to_def put_nowait_def queue_full_def)

lemma foldl_publish_to_full:
  assumes "distinct (br_clients b)" and "\<forall>q\<in>set qs. br_queues b q \<noteq> None" and "distinct qs"
  shows "br_clients (foldl (publish_to payload) b qs) =
           filter (\<lambda>q. \<not> (q \<in> set qs \<and> queue_full b q)) (br_clients b)
    \<and> br_fresh (foldl (publish_to payload) b qs) = br_fresh b
    \<and> (\<forall>q. br_queues (foldl (publish_to payload) b qs) q =
          (if q \<in> set qs \<and> \<not> queue_full b q
           then map_option (\<lambda>qu. qu\<lparr>q_items := q_items qu @ [payload]\<rparr>) (br_queues b q)
           else br_queues b q))"
  using assms
proof (induction qs arbitrary: b)
  case Nil
  then show ?case by simp
next
  case (Cons q qs)
  obtain qu where qu: "br_queues b q = Some qu" using Cons.prems(2) by auto
  have nq: "q \<notin> set qs" and dq: "distinct qs" using Cons.prems(3) by auto
  let ?b = "publish_to payload b q"
  note step = publish_to_cases [OF qu, of payload]
  have 1: "distinct (br_clients ?b)" using Cons.prems(1) by (simp add: step)
  have 2: "\<forall>q'\<in>set qs. br_queues ?b q' \<noteq> None" using Cons.prems(2) by (simp add: step)
  have f: "queue_full ?b q' = queue_full b q'" if "q' \<noteq> q" for q'
    using that by (simp add: step queue_full_def)
  note ih = Cons.IH [OF 1 2 dq]
  have c: "br_clients (foldl (publish_to payload) ?b qs) =
           filter (\<lambda>q'. \<not> (q' \<in> set (q # qs) \<and> queue_full b q')) (br_clients b)"
  proof -
    have "br_clients (foldl (publish_to payload) ?b qs) =
            filter (\<lambda>q'. \<not> (q' \<in> set qs \<and> queue_full ?b q')) (br_clients ?b)"
      using ih by blast
    also have "\<dots> = filter (\<lambda>q'. \<not> (q' \<in> set qs \<and> queue_full b q')) (br_clients ?b)"
    proof (intro filter_cong refl)
      fix x
      show "(\<not> (x \<in> set qs \<and> queue_full ?b x)) = (\<not> (x \<in> set qs \<and> queue_full b x))"
        using nq f [of x] by (cases "x = q") simp_all
    qed
    also have "\<dots> = filter (\<lambda>q'. \<not> (q' \<in> set (q # qs) \<and> queue_full b q')) (br_clients b)"
    proof (cases "queue_full b q")
      case True
      then have "br_clients ?b = filter (\<lambda>x. x \<noteq> q) (br_clients b)"
        using Cons.prems(1) by (simp add: step remove1_filter)
      then show ?thesis using True by (auto intro: filter_cong)
    next
      case False
      then have "br_clients ?b = br_clients b" by (simp add: step)
      then show ?thesis using False by (auto intro: filter_cong)
    qed
    finally show ?thesis .
  qed
  have r: "br_fresh (foldl (publish_to payload) ?b qs) = br_fresh b"
    using ih by (simp add: step)
  have u: "br_queues (foldl (publish_to payload) ?b qs) q' =
          (if q' \<in> set (q # qs) \<and> \<not> queue_full b q'
           then map_option (\<lambda>qu. qu\<lparr>q_items := q_items qu @ [payload]\<rparr>) (br_queues b q')
           else br_queues b q')" for q'
  proof -
    have i: "br_queues (foldl (publish_to payload) ?b qs) q' =
          (if q' \<in> set qs \<and> \<not> queue_full ?b q'
           then map_option (\<lambda>qu. qu\<lparr>q_items := q_items qu @ [payload]\<rparr>) (br_queues ?b q')
           else br_queues ?b q')"
      using ih by blast
    show ?thesis
    proof (cases "q' = q")
      case True
      then show ?thesis using i nq qu by (simp add: step)
    next
      case False
      then show ?thesis using i f [OF False] by (simp add: step)
    qed
  qed
  show ?case unfolding foldl_Cons using c r u by blast
qed

lemma publish_full:
  assumes "distinct (br_clients b)" and "\<forall>q\<in>set (br_clients b). br_queues b q \<noteq> None"
  shows "br_clients (publish dumps event_type data b) =
           filter (\<lambda>q. \<not> queue_full b q) (br_clients b)"
    and "br_fresh (publish dumps event_type data b) = br_fresh b"
    and "br_queues (publish dumps event_type data b) q =
          (if q \<in> set (br_clients b) \<and> \<not> queue_full b q
           then map_option (\<lambda>qu. qu\<lparr>q_items := q_items qu @ [event_payload dumps event_type data]\<rparr>)
                  (br_queues b q)
           else br_queues b q)"
proof -
  note p = foldl_publish_to_full [OF assms(1) assms(2) assms(1), of "event_payload dumps event_type data"]
  show "br_clients (publish dumps event_type data b) =
           filter (\<lambda>q. \<not> queue_full b q) (br_clients b)"
    unfolding publish_def using p by (auto intro: filter_cong)
  show "br_fresh (publish dumps event_type data b) = br_fresh b"
    unfolding publish_def using p by blast
  show "br_queues (publish dumps event_type data b) q =
          (if q \<in> set (br_clients b) \<and> \<not> queue_full b q
           then map_option (\<lambda>qu. qu\<lparr>q_items := q_items qu @ [event_payload dumps event_type data]\<rparr>)
                  (br_queues b q)
           else br_queues b q)"
    unfolding publish_def using p by blast
qed

lemma publish_full_keeps:
  assumes "distinct (br_clients b)" and "\<forall>q\<in>set (br_clients b). br_queues b q \<noteq> None"
  shows "distinct (br_clients (publish dumps event_type data b))"
    and "\<forall>q\<in>set (br_clients (publish dumps event_type data b)).
           br_queues (publish dumps event_type data b) q \<noteq> None"
  using assms by (auto simp: publish_full [OF assms])

text \<open>
  Claim C3. \<open>publish\<close> on a broker whose subscribers are distinct queues, of any capacity:
  the subscribers after it are those whose queue was not full when \<open>publish\<close> was called, in
  their order, so a subscriber whose bounded queue is full is removed; the payload is
  appended to the queue of every remaining subscriber and no other queue changes; and a
  subscriber removed for a full queue is no longer in the list and its queue is left as it
  was by this publish and by the next one. \<open>publish\<close> is a function of the broker that uses
  only \<open>put_nowait\<close>, which returns or raises at once: it has a result on every broker.
\<close>

theorem publish_drops_full_subscribers:
  assumes "distinct (br_clients b)" and "\<forall>q\<in>set (br_clients b). br_queues b q \<noteq> None"
  shows "br_clients (publish dumps event_type data b) =
           filter (\<lambda>q. \<not> queue_full b q) (br_clients b)
    \<and> (\<forall>q. br_queues (publish dumps event_type data b) q =
          (if q \<in> set (br_clients b) \<and> \<not> queue_full b q
           then map_option (\<lambda>qu. qu\<lparr>q_items := q_items qu @ [event_payload dumps event_type data]\<rparr>)
                  (br_queues b q)
           else br_queues b q))
    \<and> (\<forall>q event_type' data'. q \<in> set (br_clients b) \<and> queue_full b q \<longrightarrow>
          q \<notin> set (br_clients (publish dumps event_type data b)) \<and>
          br_queues (publish dumps event_type' data' (publish dumps event_type data b)) q =
            br_queues b q)"
proof -
  let ?b = "publish dumps event_type data b"
  note p = publish_full [OF assms, of dumps event_type data]
  note k = publish_full_keeps [OF assms, of dumps event_type data]
  have l: "q \<notin> set (br_clients ?b) \<and> br_queues (publish dumps event_type' data' ?b) q = br_queues b q"
    if "q \<in> set (br_clients b) \<and> queue_full b q" for q event_type' data'
  proof -
    have n: "q \<notin> set (br_clients ?b)" using that by (simp add: p(1))
    then have "br_queues (publish dumps event_type' data' ?b) q = br_queues ?b q"
      by (simp add: publish_full(3) [OF k])
    also have "\<dots> = br_queues b q" using that by (simp add: p(3))
    finally show ?thesis using n by blast
  qed
  show ?thesis using p(1) p(3) l by blast
qed

theorem publish_drops_full_subscribers_witness:
  "br_clients sample_slow_broker = [0, 1]
   \<and> map_option q_items (br_queues sample_slow_broker 0) = Some [sample_dumps (JObject [(''type'', JString ''tick''), (''data'', JNull)])]
   \<and> map_option q_items (br_queues sample_slow_broker 1) = Some []
   \<and> queue_full sample_slow_broker 0 \<and> \<not> queue_full sample_slow_broker 1
   \<and> br_clients (publish sample_dumps ''tock'' JNull sample_slow_broker) = [1]
   \<and> br_queues (publish sample_dumps ''tock'' JNull sample_slow_broker) 0 = br_queues sample_slow_broker 0
   \<and> map_option q_items (br_queues (publish sample_dumps ''tock'' JNull sample_slow_broker) 1) =
        Some [sample_dumps (JObject [(''type'', JString ''tock''), (''data'', JNull)])]
   \<and> br_queues (publish sample_dumps ''tick'' JNull (publish sample_dumps ''tock'' JNull sample_slow_broker)) 0 =
        br_queues sample_slow_broker 0"
proof -
  have s: "sample_slow_broker =
     \<lparr>br_queues = (\<lambda>_. None)(0 \<mapsto> \<lparr>q_maxsize = 1, q_items = [event_payload sample_dumps ''tick'' JNull]\<rparr>,
                                 1 \<mapsto> \<lparr>q_maxsize = 1, q_items = []\<rparr>),
      br_clients = [0, 1], br_fresh = 2\<rparr>"
    by (simp add: sample_slow_broker_def sample_bounded_broker_def publish_def publish_to_def
        put_nowait_def queue_get_def fun_upd_twist)
  have c: "br_clients sample_slow_broker = [0, 1]" by (simp add: s)
  have q0: "map_option q_items (br_queues sample_slow_broker 0) =
      Some [sample_dumps (JObject [(''type'', JString ''tick''), (''data'', JNull)])]"
    by (simp add: s event_payload_def)
  have q1: "map_option q_items (br_queues sample_slow_broker 1) = Some []" by (simp add: s)
  have f0: "queue_full sample_slow_broker 0" by (simp add: s queue_full_def)
  have f1: "\<not> queue_full sample_slow_broker 1" by (simp add: s queue_full_def)
  have d: "distinct (br_clients sample_slow_broker)" by (simp add: s)
  have e: "\<forall>q\<in>set (br_clients sample_slow_broker). br_queues sample_slow_broker q \<noteq> None"
    by (simp add: s)
  note t = publish_drops_full_subscribers [OF d e, of sample_dumps "''tock''" JNull]
  have r1: "br_clients (publish sample_dumps ''tock'' JNull sample_slow_broker) = [1]"
    using t f0 f1 by (simp add: c)
  have r2: "br_queues (publish sample_dumps ''tock'' JNull sample_slow_broker) 0 = br_queues sample_slow_broker 0"
    using t f0 by simp
  have "br_queues (publish sample_dumps ''tock'' JNull sample_slow_broker) 1 =
      map_option (\<lambda>qu. qu\<lparr>q_items := q_items qu @ [event_payload sample_dumps ''tock'' JNull]\<rparr>)
        (br_queues sample_slow_broker 1)"
    using t f1 c by simp
  then have r3: "map_option q_items (br_queues (publish sample_dumps ''tock'' JNull sample_slow_broker) 1) =
        Some [sample_dumps (JObject [(''type'', JString ''tock''), (''data'', JNull)])]"
    by (simp add: s event_payload_def)
  have r4: "br_queues (publish sample_dumps ''tick'' JNull (publish sample_dumps ''tock'' JNull sample_slow_broker)) 0 =
        br_queues sample_slow_broker 0"
    using t f0 c by simp
  show ?thesis using c q0 q1 f0 f1 r1 r2 r3 r4 by (intro conjI)
qed

section \<open>Export\<close>

lemma export_rows_fails:
  assumes "r \<in> set rows" "loads (raw_or_empty_object (tw_raw r)) = None"
  shows "snd (export_rows loads dumps rows) = Some JSONDecodeError
    \<and> length (fst (export_rows loads dumps rows)) < length rows"
  using assms
proof (induction rows)
  case Nil
  then show ?case by simp
next
  case (Cons x xs)
  show ?case
  proof (cases "loads (raw_or_empty_object (tw_raw x))")
    case None
    then show ?thesis by simp
  next
    case (Some j)
    then have "r \<in> set xs" using Cons.prems by auto
    then show ?thesis using Cons.IH Cons.prems(2) Some by simp
  qed
qed

lemma export_rows_succeeds:
  assumes "\<forall>r\<in>set rows. loads (raw_or_empty_object (tw_raw r)) \<noteq> None"
  shows "export_rows loads dumps rows =
           (map (\<lambda>r. dumps (export_data r (the (loads (raw_or_empty_object (tw_raw r)))))) rows, None)"
  using assms by (induction rows) (auto split: option.splits)

lemma export_tweets_succeeds:
  assumes "\<forall>r\<in>set (tweets db). loads (raw_or_empty_object (tw_raw r)) \<noteq> None"
  shows "export_tweets dt loads dumps db =
           (map (\<lambda>r. dumps (export_data r (the (loads (raw_or_empty_object (tw_raw r))))))
              (order_by_desc (\<lambda>r. dt (tw_created_at r)) (tweets db)), None)"
  unfolding export_tweets_def
  using assms by (intro export_rows_succeeds) (simp add: set_order_by_desc)

text \<open>
  Claim C9 on the code. \<open>row["raw"] or "{}"\<close> replaces only a NULL or empty \<open>raw\<close>. When
  the table holds a row whose \<open>raw\<close> is a non-empty string that \<open>json.loads\<close> rejects,
  \<open>export_tweets\<close> raises \<open>JSONDecodeError\<close> at that row: it yields fewer lines than the
  table has rows and no empty object for the row. (When every row parses,
  \<open>export_tweets_succeeds\<close> gives one line per row in descending
  \<open>datetime(created_at)\<close> order.)
\<close>

theorem export_tweets_raises_on_unparsable_raw:
  assumes "r \<in> set (tweets db)" and "loads (raw_or_empty_object (tw_raw r)) = None"
  shows "snd (export_tweets dt loads dumps db) = Some JSONDecodeError
    \<and> length (fst (export_tweets dt loads dumps db)) < length (tweets db)"
proof -
  have "r \<in> set (order_by_desc (\<lambda>r. dt (tw_created_at r)) (tweets db))"
    using assms(1) by (simp add: set_order_by_desc)
  then have "snd (export_rows loads dumps (order_by_desc (\<lambda>r. dt (tw_created_at r)) (tweets db))) = Some JSONDecodeError
    \<and> length (fst (export_rows loads dumps (order_by_desc (\<lambda>r. dt (tw_created_at r)) (tweets db))))
        < length (order_by_desc (\<lambda>r. dt (tw_created_at r)) (tweets db))"
    using assms(2) by (rule export_rows_fails)
  then show ?thesis
    unfolding export_tweets_def by (simp only: length_order_by_desc)
qed

theorem export_tweets_raises_on_unparsable_raw_witness:
  "(sample_row ''t2'' ''user:alice'' ''2024-01-01 00:00:02'')\<lparr>tw_raw := Some ''not json''\<rparr>
      \<in> set (tweets sample_bad_storage)
   \<and> sample_loads (raw_or_empty_object (Some ''not json'')) = None
   \<and> snd (export_tweets (\<lambda>s. s) sample_loads sample_dumps sample_bad_storage) = Some JSONDecodeError
   \<and> length (fst (export_tweets (\<lambda>s. s) sample_loads sample_dumps sample_bad_storage)) = 1"
proof -
  let ?r = "(sample_row ''t2'' ''user:alice'' ''2024-01-01 00:00:02'')\<lparr>tw_raw := Some ''not json''\<rparr>"
  have m: "?r \<in> set (tweets sample_bad_storage)" by (simp add: sample_bad_storage_def)
  have l: "sample_loads (raw_or_empty_object (tw_raw ?r)) = None"
    by (simp add: sample_loads_def raw_or_empty_object_def)
  have e: "snd (export_tweets (\<lambda>s. s) sample_loads sample_dumps sample_bad_storage) = Some JSONDecodeError"
    using export_tweets_raises_on_unparsable_raw
      [where r = "?r" and db = sample_bad_storage and loads = sample_loads and dt = "\<lambda>s. s"
        and dumps = sample_dumps] m l
    by blast
  have n: "length (fst (export_tweets (\<lambda>s. s) sample_loads sample_dumps sample_bad_storage)) = 1"
    by (simp add: export_tweets_def order_by_desc_def sample_bad_storage_def sample_row_def
        sample_loads_def raw_or_empty_object_def)
  show ?thesis using m l e n by simp
qed

section \<open>One fetch of a target\<close>

lemma store_entries_none:
  "store_entries dt dumps wall keep_limit row [] instance (db, broker) =
     (0, (case keep_limit of None \<Rightarrow> db | Some n \<Rightarrow> if n \<noteq> 0 then prune_old_entries dt db n else db), broker)"
  by (simp add: store_entries_def)

lemma prune_targets: "targets (prune_old_entries dt db n) = targets db"
  by (simp add: prune_old_entries_def)

lemma prune_subset: "set (tweets (prune_old_entries dt db n)) \<subseteq> set (tweets db)"
  unfolding prune_old_entries_tweets by auto

lemma update_target_fetch_state_tweets:
  "tweets (update_target_fetch_state db i a b) = tweets db"
  by (simp add: update_target_fetch_state_def)

lemma get_target_updated:
  assumes "get_target db i = Some t"
  shows "get_target (update_target_fetch_state db i a b) i =
           Some (t\<lparr>tg_last_fetched_id := a, tg_last_fetched_at := b\<rparr>)"
proof -
  have "find (\<lambda>t. tg_id t = i) (map (\<lambda>t. if tg_id t = i then t\<lparr>tg_last_fetched_id := a, tg_last_fetched_at := b\<rparr> else t) ts)
      = map_option (\<lambda>t. t\<lparr>tg_last_fetched_id := a, tg_last_fetched_at := b\<rparr>) (find (\<lambda>t. tg_id t = i) ts)"
    for ts :: "target_row list"
    by (induction ts) auto
  then show ?thesis
    using assms by (simp add: get_target_def update_target_fetch_state_def)
qed

lemma app_fetch_target_error:
  assumes "fetch_target (env_fetch env) (app_client app) (tg_type row) (tg_value row) = Inr ((es, inst, err), c)"
    and "truthy err"
  shows "\<exists>app'. app_fetch_target dt dumps keep_limit env app row =
           Inr (\<lparr>sum_target = tg_value row, sum_new = 0, sum_error = err, sum_instance = inst\<rparr>, app')
         \<and> app_storage app' = app_storage app"
  using assms by (simp add: app_fetch_target_def Let_def)

lemma app_fetch_target_no_error:
  assumes "fetch_target (env_fetch env) (app_client app) (tg_type row) (tg_value row) = Inr (([], inst, err), c)"
    and "\<not> truthy err"
  shows "\<exists>app'. app_fetch_target dt dumps keep_limit env app row =
           Inr (\<lparr>sum_target = tg_value row, sum_new = 0, sum_error = None, sum_instance = inst\<rparr>, app')
         \<and> app_storage app' =
             update_target_fetch_state
               (case keep_limit of None \<Rightarrow> app_storage app
                | Some n \<Rightarrow> if n \<noteq> 0 then prune_old_entries dt (app_storage app) n else app_storage app)
               (tg_id row) None (Some (env_now_iso env))"
  using assms
  by (simp add: app_fetch_target_def Let_def store_entries_none first_entry_id_def)

lemma fetch_target_no_instance:
  assumes "acquire_instance (env_acquire_clock env) c = Inr (None, c1)"
  shows "fetch_target env c ty v = Inr (([], None, Some no_instance_message), c1)"
  using assms by (simp add: fetch_target_def)

lemma fetch_target_raised:
  assumes "acquire_instance (env_acquire_clock env) c = Inr (Some i, c1)"
    and "env_http env (construct_url (states c1 ! i) ty v) = Raised msg"
  shows "fetch_target env c ty v =
     Inr (([], Some (base_url (states c1 ! i)), Some msg),
          on_state i (release_instance_on_error (backoff_base_seconds c1) (env_release env) None) c1)"
  using assms by (simp add: fetch_target_def fetch_def Let_def)

lemma fetch_target_http_error:
  assumes "acquire_instance (env_acquire_clock env) c = Inr (Some i, c1)"
    and "env_http env (construct_url (states c1 ! i) ty v) = Returned r"
    and "400 \<le> resp_status_code r"
  shows "fetch_target env c ty v =
     Inr (([], Some (base_url (states c1 ! i)), Some (''HTTP '' @ str_int (resp_status_code r))),
          on_state i (release_instance_on_error (backoff_base_seconds c1) (env_release env)
            (Some (resp_status_code r))) c1)"
  using assms by (simp add: fetch_target_def fetch_def Let_def)

lemma truthy_messages:
  "truthy (Some no_instance_message)" "truthy (Some (''HTTP '' @ s))" "truthy (Some msg) = (msg \<noteq> [])"
  by (simp_all add: truthy_def no_instance_message_def)

text \<open>The three kinds of failed fetch leave the store alone, when the error text is not empty.\<close>

lemma failed_fetch_keeps_store:
  assumes "acquire_instance (env_acquire_clock (env_fetch env)) (app_client app) = Inr (a, c1)"
    and "a = None
       \<or> (\<exists>i msg. a = Some i \<and> msg \<noteq> [] \<and>
            env_http (env_fetch env) (construct_url (states c1 ! i) (tg_type row) (tg_value row)) = Raised msg)
       \<or> (\<exists>i r. a = Some i \<and> 400 \<le> resp_status_code r \<and>
            env_http (env_fetch env) (construct_url (states c1 ! i) (tg_type row) (tg_value row)) = Returned r)"
  shows "\<exists>summary app'. app_fetch_target dt dumps keep_limit env app row = Inr (summary, app')
         \<and> sum_new summary = 0 \<and> sum_error summary \<noteq> None \<and> app_storage app' = app_storage app"
proof -
  consider (none) "a = None"
    | (raised) i msg where "a = Some i" "msg \<noteq> []"
        "env_http (env_fetch env) (construct_url (states c1 ! i) (tg_type row) (tg_value row)) = Raised msg"
    | (http) i r where "a = Some i" "400 \<le> resp_status_code r"
        "env_http (env_fetch env) (construct_url (states c1 ! i) (tg_type row) (tg_value row)) = Returned r"
    using assms(2) by blast
  then show ?thesis
  proof cases
    case none
    then have "fetch_target (env_fetch env) (app_client app) (tg_type row) (tg_value row) =
        Inr (([], None, Some no_instance_message), c1)"
      using assms(1) by (simp add: fetch_target_no_instance)
    from app_fetch_target_error [OF this truthy_messages(1), of dt dumps keep_limit]
    show ?thesis by auto
  next
    case raised
    then have "fetch_target (env_fetch env) (app_client app) (tg_type row) (tg_value row) =
        Inr (([], Some (base_url (states c1 ! i)), Some msg),
          on_state i (release_instance_on_error (backoff_base_seconds c1) (env_release (env_fetch env)) None) c1)"
      using assms(1) by (simp add: fetch_target_raised)
    moreover have "truthy (Some msg)" using raised(2) by (simp add: truthy_messages)
    ultimately show ?thesis
      using app_fetch_target_error [of env app row "[]" _ "Some msg" _ dt dumps keep_limit] by auto
  next
    case http
    then have "fetch_target (env_fetch env) (app_client app) (tg_type row) (tg_value row) =
        Inr (([], Some (base_url (states c1 ! i)), Some (''HTTP '' @ str_int (resp_status_code r))),
          on_state i (release_instance_on_error (backoff_base_seconds c1) (env_release (env_fetch env))
            (Some (resp_status_code r))) c1)"
      using assms(1) by (simp add: fetch_target_http_error)
    from app_fetch_target_error [OF this truthy_messages(2), of dt dumps keep_limit]
    show ?thesis by auto
  qed
qed

lemma get_target_prune: "get_target (prune_old_entries dt db n) i = get_target db i"
  by (simp add: get_target_def prune_targets)

lemma get_target_keep_limit:
  "get_target (case keep_limit of None \<Rightarrow> db | Some n \<Rightarrow> if n \<noteq> 0 then prune_old_entries dt db n else db) i =
     get_target db i"
  by (simp add: get_target_prune split: option.splits)

lemma tweets_keep_limit:
  "set (tweets (case keep_limit of None \<Rightarrow> db | Some n \<Rightarrow> if n \<noteq> 0 then prune_old_entries dt db n else db))
     \<subseteq> set (tweets db)"
  using prune_subset by (auto split: option.splits)

lemma due_after_update:
  assumes "s \<noteq> []" "fromisoformat s = Some now"
  shows "due fromisoformat now' (t\<lparr>tg_last_fetched_id := a, tg_last_fetched_at := Some s\<rparr>) =
           (real_of_int (poll_interval t) \<le> now' - now)"
  using assms by (simp add: due_def truthy_def or_empty_def poll_interval_def)

lemma sample_app_acquire:
  "\<exists>c1. acquire_instance (env_acquire_clock (env_fetch (sample_app_env outcome))) (app_client sample_app)
            = Inr (Some 0, c1) \<and>
         base_url (states c1 ! 0) = ''https://a''"
  using sample_client_acquire by (simp add: sample_app_env_def sample_fetch_env_def sample_app_def)

text \<open>
  Claim C5 on the code. \<open>_fetch_target\<close> tests the error text with \<open>if error\<close>, which is
  false for the empty string. When the request raises an exception whose \<open>str()\<close> is
  empty, \<open>fetch_target\<close> returns no entries and the empty error text, and
  \<open>_fetch_target\<close> then takes the path of a successful fetch: its summary carries no
  error, and the target's \<open>last_fetched_id\<close> is overwritten with NULL and its
  \<open>last_fetched_at\<close> with the time of this fetch. (For the other failed fetches,
  \<open>failed_fetch_keeps_store\<close> shows that the store is left as it was.)
\<close>

theorem empty_error_text_is_treated_as_success:
  assumes "acquire_instance (env_acquire_clock (env_fetch env)) (app_client app) = Inr (Some i, c1)"
    and "env_http (env_fetch env) (construct_url (states c1 ! i) (tg_type row) (tg_value row)) = Raised []"
    and "get_target (app_storage app) (tg_id row) = Some t"
  shows "\<exists>app'. app_fetch_target dt dumps keep_limit env app row =
           Inr (\<lparr>sum_target = tg_value row, sum_new = 0, sum_error = None,
                  sum_instance = Some (base_url (states c1 ! i))\<rparr>, app')
         \<and> get_target (app_storage app') (tg_id row) =
             Some (t\<lparr>tg_last_fetched_id := None, tg_last_fetched_at := Some (env_now_iso env)\<rparr>)"
proof -
  have f: "fetch_target (env_fetch env) (app_client app) (tg_type row) (tg_value row) =
     Inr (([], Some (base_url (states c1 ! i)), Some []),
          on_state i (release_instance_on_error (backoff_base_seconds c1) (env_release (env_fetch env)) None) c1)"
    using assms(1,2) by (rule fetch_target_raised)
  have n: "\<not> truthy (Some [])" by (simp add: truthy_def)
  obtain app' where a: "app_fetch_target dt dumps keep_limit env app row =
           Inr (\<lparr>sum_target = tg_value row, sum_new = 0, sum_error = None,
                  sum_instance = Some (base_url (states c1 ! i))\<rparr>, app')"
    and s: "app_storage app' =
             update_target_fetch_state
               (case keep_limit of None \<Rightarrow> app_storage app
                | Some n \<Rightarrow> if n \<noteq> 0 then prune_old_entries dt (app_storage app) n else app_storage app)
               (tg_id row) None (Some (env_now_iso env))"
    using app_fetch_target_no_error [OF f n, of dt dumps keep_limit] by blast
  have "get_target (app_storage app') (tg_id row) =
             Some (t\<lparr>tg_last_fetched_id := None, tg_last_fetched_at := Some (env_now_iso env)\<rparr>)"
    unfolding s using assms(3) by (intro get_target_updated) (simp add: get_target_keep_limit)
  then show ?thesis using a by blast
qed

theorem empty_error_text_is_treated_as_success_witness:
  "get_target (app_storage sample_app) (tg_id sample_target) = Some sample_target
   \<and> tg_last_fetched_id sample_target = Some ''t9''
   \<and> (\<exists>app'. app_fetch_target (\<lambda>s. s) sample_dumps None (sample_app_env (Raised [])) sample_app sample_target =
           Inr (\<lparr>sum_target = ''alice'', sum_new = 0, sum_error = None, sum_instance = Some ''https://a''\<rparr>, app')
         \<and> get_target (app_storage app') 1 =
             Some (sample_target\<lparr>tg_last_fetched_id := None,
                     tg_last_fetched_at := Some ''2024-01-01T00:10:00+00:00''\<rparr>))"
proof -
  obtain c1 where a: "acquire_instance (env_acquire_clock (env_fetch (sample_app_env (Raised [])))) (app_client sample_app)
            = Inr (Some 0, c1)"
    and u: "base_url (states c1 ! 0) = ''https://a''"
    using sample_app_acquire by blast
  have h: "env_http (env_fetch (sample_app_env (Raised [])))
             (construct_url (states c1 ! 0) (tg_type sample_target) (tg_value sample_target)) = Raised []"
    using u by (simp add: sample_app_env_def sample_fetch_env_def construct_url_def sample_target_def)
  have g: "get_target (app_storage sample_app) (tg_id sample_target) = Some sample_target"
    by (simp add: get_target_def sample_app_def)
  have i: "tg_last_fetched_id sample_target = Some ''t9''" by (simp add: sample_target_def)
  from empty_error_text_is_treated_as_success [OF a h g, of "\<lambda>s. s" sample_dumps None]
  have "\<exists>app'. app_fetch_target (\<lambda>s. s) sample_dumps None (sample_app_env (Raised [])) sample_app sample_target =
           Inr (\<lparr>sum_target = ''alice'', sum_new = 0, sum_error = None, sum_instance = Some ''https://a''\<rparr>, app')
         \<and> get_target (app_storage app') 1 =
             Some (sample_target\<lparr>tg_last_fetched_id := None,
                     tg_last_fetched_at := Some ''2024-01-01T00:10:00+00:00''\<rparr>)"
    using u by (simp add: sample_target_def sample_app_env_def)
  then show ?thesis using g i by blast
qed

text \<open>
  Claim C10. When \<open>fetch_target\<close> returns no entries and no error for a target that
  is in the store, \<open>_fetch_target\<close> reports no new post and no error, adds no row to
  \<open>tweets\<close>, sets the target's \<open>last_fetched_id\<close> to NULL and its \<open>last_fetched_at\<close> to
  \<open>now_iso\<close>; with \<open>now_iso\<close> read back as the instant \<open>now\<close>, the scheduler finds the
  target due at \<open>now'\<close> exactly when \<open>now' - now\<close> has reached its poll interval.
\<close>

theorem empty_fetch_updates_fetch_state:
  assumes "fetch_target (env_fetch env) (app_client app) (tg_type row) (tg_value row) =
             Inr (([], instance, None), c)"
    and "get_target (app_storage app) (tg_id row) = Some t"
    and "env_now_iso env \<noteq> []"
    and "fromisoformat (env_now_iso env) = Some now"
  shows "\<exists>summary app'.
           app_fetch_target dt dumps keep_limit env app row = Inr (summary, app')
         \<and> sum_new summary = 0 \<and> sum_error summary = None
         \<and> set (tweets (app_storage app')) \<subseteq> set (tweets (app_storage app))
         \<and> get_target (app_storage app') (tg_id row) =
             Some (t\<lparr>tg_last_fetched_id := None, tg_last_fetched_at := Some (env_now_iso env)\<rparr>)
         \<and> (\<forall>now'. due fromisoformat now'
                      (t\<lparr>tg_last_fetched_id := None, tg_last_fetched_at := Some (env_now_iso env)\<rparr>) =
                    (real_of_int (poll_interval t) \<le> now' - now))"
proof -
  have n: "\<not> truthy None" by (simp add: truthy_def)
  obtain app' where a: "app_fetch_target dt dumps keep_limit env app row =
           Inr (\<lparr>sum_target = tg_value row, sum_new = 0, sum_error = None, sum_instance = instance\<rparr>, app')"
    and s: "app_storage app' =
             update_target_fetch_state
               (case keep_limit of None \<Rightarrow> app_storage app
                | Some n \<Rightarrow> if n \<noteq> 0 then prune_old_entries dt (app_storage app) n else app_storage app)
               (tg_id row) None (Some (env_now_iso env))"
    using app_fetch_target_no_error [OF assms(1) n, of dt dumps keep_limit] by blast
  have g: "get_target (app_storage app') (tg_id row) =
             Some (t\<lparr>tg_last_fetched_id := None, tg_last_fetched_at := Some (env_now_iso env)\<rparr>)"
    unfolding s using assms(2) by (intro get_target_updated) (simp add: get_target_keep_limit)
  have w: "set (tweets (app_storage app')) \<subseteq> set (tweets (app_storage app))"
    unfolding s update_target_fetch_state_tweets by (rule tweets_keep_limit)
  have d: "\<forall>now'. due fromisoformat now'
                      (t\<lparr>tg_last_fetched_id := None, tg_last_fetched_at := Some (env_now_iso env)\<rparr>) =
                    (real_of_int (poll_interval t) \<le> now' - now)"
    using due_after_update [where fromisoformat = fromisoformat and s = "env_now_iso env" and now = now]
      assms(3,4) by blast
  show ?thesis using a g w d by auto
qed

theorem empty_fetch_updates_fetch_state_witness:
  "(\<exists>c. fetch_target (env_fetch (sample_app_env (Returned sample_empty_feed_response))) (app_client sample_app)
           (tg_type sample_target) (tg_value sample_target) = Inr (([], Some ''https://a'', None), c))
   \<and> get_target (app_storage sample_app) (tg_id sample_target) = Some sample_target
   \<and> sample_fromisoformat (env_now_iso (sample_app_env (Returned sample_empty_feed_response))) = Some 600
   \<and> (\<exists>summary app'.
         app_fetch_target (\<lambda>s. s) sample_dumps (Some 2) (sample_app_env (Returned sample_empty_feed_response))
           sample_app sample_target = Inr (summary, app')
       \<and> sum_new summary = 0 \<and> sum_error summary = None
       \<and> get_target (app_storage app') 1 =
           Some (sample_target\<lparr>tg_last_fetched_id := None,
                   tg_last_fetched_at := Some ''2024-01-01T00:10:00+00:00''\<rparr>))
   \<and> \<not> due sample_fromisoformat 659
         (sample_target\<lparr>tg_last_fetched_id := None, tg_last_fetched_at := Some ''2024-01-01T00:10:00+00:00''\<rparr>)
   \<and> due sample_fromisoformat 660
         (sample_target\<lparr>tg_last_fetched_id := None, tg_last_fetched_at := Some ''2024-01-01T00:10:00+00:00''\<rparr>)"
proof -
  let ?env = "sample_app_env (Returned sample_empty_feed_response)"
  obtain c1 where a: "acquire_instance (env_acquire_clock (env_fetch ?env)) (app_client sample_app)
            = Inr (Some 0, c1)"
    and u: "base_url (states c1 ! 0) = ''https://a''"
    using sample_app_acquire by blast
  have h: "env_http (env_fetch ?env)
             (construct_url (states c1 ! 0) (tg_type sample_target) (tg_value sample_target)) =
           Returned sample_empty_feed_response"
    using u by (simp add: sample_app_env_def sample_fetch_env_def construct_url_def sample_target_def)
  have st: "resp_status_code sample_empty_feed_response < 400"
    by (simp add: sample_empty_feed_response_def)
  have f: "fetch_target (env_fetch ?env) (app_client sample_app) (tg_type sample_target) (tg_value sample_target) =
      Inr (([], Some ''https://a'', None),
           on_state 0 (release_instance_on_success (env_end (env_fetch ?env) - env_start (env_fetch ?env))) c1)"
    using fetch_target_success [OF a h st] u
    by (simp add: sample_empty_feed_response_def parse_rss_def or_empty_def)
  have g: "get_target (app_storage sample_app) (tg_id sample_target) = Some sample_target"
    by (simp add: get_target_def sample_app_def)
  have ne: "env_now_iso ?env \<noteq> []" by (simp add: sample_app_env_def)
  have p: "sample_fromisoformat (env_now_iso ?env) = Some 600"
    by (simp add: sample_app_env_def sample_fromisoformat_def)
  note t = empty_fetch_updates_fetch_state
    [where fromisoformat = sample_fromisoformat and dt = "\<lambda>s. s" and dumps = sample_dumps
      and keep_limit = "Some 2", OF f g ne p]
  have r: "\<exists>summary app'.
         app_fetch_target (\<lambda>s. s) sample_dumps (Some 2) ?env sample_app sample_target = Inr (summary, app')
       \<and> sum_new summary = 0 \<and> sum_error summary = None
       \<and> get_target (app_storage app') 1 =
           Some (sample_target\<lparr>tg_last_fetched_id := None,
                   tg_last_fetched_at := Some ''2024-01-01T00:10:00+00:00''\<rparr>)"
    using t by (auto simp: sample_target_def sample_app_env_def)
  have d: "\<forall>now'. due sample_fromisoformat now'
        (sample_target\<lparr>tg_last_fetched_id := None, tg_last_fetched_at := Some (env_now_iso ?env)\<rparr>) =
      (real_of_int (poll_interval sample_target) \<le> now' - 600)"
    using t by blast
  have i: "poll_interval sample_target = 60" by (simp add: poll_interval_def sample_target_def)
  have d1: "\<not> due sample_fromisoformat 659
         (sample_target\<lparr>tg_last_fetched_id := None, tg_last_fetched_at := Some ''2024-01-01T00:10:00+00:00''\<rparr>)"
    using d [rule_format, of 659] i by (simp add: sample_app_env_def)
  have d2: "due sample_fromisoformat 660
         (sample_target\<lparr>tg_last_fetched_id := None, tg_last_fetched_at := Some ''2024-01-01T00:10:00+00:00''\<rparr>)"
    using d [rule_format, of 660] i by (simp add: sample_app_env_def)
  show ?thesis using f g p r d1 d2 by blast
qed

end
